theory Spec2Isabelle
  imports Main "HOL-Library.Sublist" "HOL-Library.AList"
begin

section \<open>JavaScript values and built-ins the program relies on\<close>

text \<open>
  A JavaScript number as the program uses it: an integer, \<open>NaN\<close> (the result of
  \<open>getTime()\<close> on an invalid date and of \<open>parseInt\<close> on a string without digits), or an
  infinity (the result of \<open>parseInt\<close> on very many digits). \<open>strict_ne\<close> is \<open>!==\<close> on
  numbers: \<open>NaN\<close> differs from everything, itself included.
\<close>

datatype jsnum = NaN | Num int | PosInfinity | NegInfinity

fun strict_ne :: "jsnum \<Rightarrow> jsnum \<Rightarrow> bool" where
  "strict_ne NaN b = True"
| "strict_ne a NaN = True"
| "strict_ne a b = (a \<noteq> b)"

text \<open>
  Numbers are IEEE doubles. \<open>roundDouble n\<close> is the number that stands for the integer
  \<open>n\<close>: \<open>n\<close> itself when it has at most 53 significant bits, otherwise the nearest
  integer with 53 significant bits (a tie goes to the even one), and an infinity when
  that is \<open>2 ^ 1024\<close> or more. \<open>timesInt x k\<close> is the product \<open>x * k\<close> for an integer
  \<open>k > 0\<close>.
\<close>

fun bitLength :: "nat \<Rightarrow> nat" where
  "bitLength n = (if n = 0 then 0 else Suc (bitLength (n div 2)))"

declare bitLength.simps [simp del]

definition roundDouble :: "int \<Rightarrow> jsnum" where
  "roundDouble n =
     (let a = nat \<bar>n\<bar>;
          e = bitLength a - 53;
          q = a div 2 ^ e;
          r = a mod 2 ^ e;
          q' = (if 2 * r > 2 ^ e \<or> (2 * r = 2 ^ e \<and> odd q) then q + 1 else q);
          v = q' * 2 ^ e
      in if v \<ge> 2 ^ 1024 then (if n < 0 then NegInfinity else PosInfinity)
         else Num (if n < 0 then - int v else int v))"

definition timesInt :: "jsnum \<Rightarrow> int \<Rightarrow> jsnum" where
  "timesInt x k = (case x of Num n \<Rightarrow> roundDouble (n * k) | _ \<Rightarrow> x)"

text \<open>Strings are sequences of code units; \<open>trim\<close>, \<open>split\<close> and \<open>endsWith\<close> work on them.\<close>

definition isWhiteSpace :: "char \<Rightarrow> bool" where
  "isWhiteSpace c = ((of_char c :: nat) \<in> {9, 10, 11, 12, 13, 32, 160})"

definition trim :: "string \<Rightarrow> string" where
  "trim s = rev (dropWhile isWhiteSpace (rev (dropWhile isWhiteSpace s)))"

fun splitOn :: "char \<Rightarrow> string \<Rightarrow> string list" where
  "splitOn sep [] = [[]]"
| "splitOn sep (c # cs) =
     (if c = sep then [] # splitOn sep cs
      else (case splitOn sep cs of p # ps \<Rightarrow> (c # p) # ps | [] \<Rightarrow> [[c]]))"

definition endsWith :: "string \<Rightarrow> string \<Rightarrow> bool" where
  "endsWith s t = (length t \<le> length s \<and> drop (length s - length t) s = t)"

definition isDigit :: "char \<Rightarrow> bool" where
  "isDigit c = (48 \<le> (of_char c :: nat) \<and> (of_char c :: nat) \<le> 57)"

definition digitVal :: "char \<Rightarrow> nat" where
  "digitVal c = of_char c - 48"

text \<open>
  \<open>parseInt(s, 10)\<close>: leading white space, an optional sign, then the longest run of
  digits, read as an integer and taken to the nearest number.
\<close>

definition parseInt10 :: "string \<Rightarrow> jsnum" where
  "parseInt10 s =
     (let t = dropWhile isWhiteSpace s;
          neg = (case t of c # r \<Rightarrow> c = CHR ''-'' | [] \<Rightarrow> False);
          u = (case t of c # r \<Rightarrow> if c = CHR ''-'' \<or> c = CHR ''+'' then r else t | [] \<Rightarrow> []);
          ds = takeWhile isDigit u
      in if ds = [] then NaN
         else roundDouble ((if neg then - 1 else 1) * int (foldl (\<lambda>a c. 10 * a + digitVal c) 0 ds)))"

text \<open>
  \<open>JSON.stringify\<close> on the two shapes \<open>domain_names\<close> can have (\<open>string | string[]\<close>):
  a string is quoted with the JSON escapes, an array is the bracketed, comma-joined list
  of its quoted elements.
\<close>

datatype str_or_list = JStr string | JArr "string list"

definition hexDigit :: "nat \<Rightarrow> char" where
  "hexDigit n = (if n < 10 then char_of (48 + n) else char_of (87 + n))"

definition quoteJSONChar :: "char \<Rightarrow> string" where
  "quoteJSONChar c =
    (if c = CHR 0x08 then [CHR 0x5C, CHR ''b'']
     else if c = CHR 0x09 then [CHR 0x5C, CHR ''t'']
     else if c = CHR 0x0A then [CHR 0x5C, CHR ''n'']
     else if c = CHR 0x0C then [CHR 0x5C, CHR ''f'']
     else if c = CHR 0x0D then [CHR 0x5C, CHR ''r'']
     else if c = CHR 0x22 then [CHR 0x5C, CHR 0x22]
     else if c = CHR 0x5C then [CHR 0x5C, CHR 0x5C]
     else if (of_char c :: nat) < 32
       then [CHR 0x5C, CHR ''u'', CHR ''0'', CHR ''0'',
             hexDigit (of_char c div 16), hexDigit (of_char c mod 16)]
     else [c])"

definition quoteJSONString :: "string \<Rightarrow> string" where
  "quoteJSONString s = CHR 0x22 # concat (map quoteJSONChar s) @ [CHR 0x22]"

fun joinComma :: "string list \<Rightarrow> string" where
  "joinComma [] = []"
| "joinComma [x] = x"
| "joinComma (x # y # ys) = x @ CHR '','' # joinComma (y # ys)"

fun JSON_stringify :: "str_or_list \<Rightarrow> string" where
  "JSON_stringify (JStr s) = quoteJSONString s"
| "JSON_stringify (JArr xs) = CHR ''['' # joinComma (map quoteJSONString xs) @ [CHR '']'']"


section \<open>The NPM host monitor (npm-monitor.ts)\<close>

record NPMHost =
  id_host :: int
  domain_names :: str_or_list
  forward_host :: string
  forward_port :: int
  created_on :: string
  modified_on :: string

text \<open>
  The fields of the class that change. \<open>monitorInterval\<close> records whether the timer handle
  is set; \<open>exchanges\<close> counts the HTTP exchanges made with NPM so far and indexes the
  replies of the environment.
\<close>

record NPMMonitor =
  token :: "string option"
  monitorInterval :: bool
  isMonitoring :: bool
  lastKnownHosts :: "NPMHost list"
  consecutiveFailures :: nat
  isInitialized :: bool
  exchanges :: nat

definition maxRetries :: nat where
  "maxRetries = 3"

definition maxConsecutiveFailures :: nat where
  "maxConsecutiveFailures = 5"

text \<open>
  What \<open>fetch\<close> gives: a transport failure (connection refused, timeout and abort), or a
  status with the decoded JSON body (\<open>None\<close> when the body does not decode).
\<close>

datatype 'a reply = TransportError | Reply nat "'a option"

definition ok :: "nat \<Rightarrow> bool" where
  "ok status = (200 \<le> status \<and> status \<le> 299)"

record npm_env =
  loginResponse :: "nat \<Rightarrow> string reply"
  hostsResponse :: "nat \<Rightarrow> NPMHost list reply"

datatype npm_error = Unauthenticated | Unreachable | CallbackFailed

text \<open>
  \<open>login\<close>: the loop over \<open>attempt\<close>, counted down (\<open>k\<close> attempts are left). The waits
  between attempts are not part of this model.
\<close>

fun login_attempts :: "npm_env \<Rightarrow> nat \<Rightarrow> NPMMonitor \<Rightarrow> bool \<times> NPMMonitor" where
  "login_attempts env 0 m =
     (False, m\<lparr>consecutiveFailures := consecutiveFailures m + 1\<rparr>)"
| "login_attempts env (Suc k) m =
     (let m1 = m\<lparr>exchanges := exchanges m + 1\<rparr> in
      case loginResponse env (exchanges m) of
        TransportError \<Rightarrow> login_attempts env k m1
      | Reply status body \<Rightarrow>
          if \<not> ok status then login_attempts env k m1
          else (case body of
                  None \<Rightarrow> login_attempts env k m1
                | Some tok \<Rightarrow> (True, m1\<lparr>token := Some tok, consecutiveFailures := 0\<rparr>)))"

definition login :: "npm_env \<Rightarrow> NPMMonitor \<Rightarrow> bool \<times> NPMMonitor" where
  "login env m = login_attempts env maxRetries m"

definition falsy :: "string option \<Rightarrow> bool" where
  "falsy t = (t = None \<or> t = Some [])"

definition getHeaders :: "npm_env \<Rightarrow> NPMMonitor \<Rightarrow> (npm_error + string option) \<times> NPMMonitor" where
  "getHeaders env m =
     (if falsy (token m) then
        (case login env m of
           (True, m1) \<Rightarrow> (Inr (token m1), m1)
         | (False, m1) \<Rightarrow> (Inl Unauthenticated, m1))
      else (Inr (token m), m))"

definition stopMonitoring :: "NPMMonitor \<Rightarrow> NPMMonitor" where
  "stopMonitoring m = m\<lparr>monitorInterval := False, isMonitoring := False, isInitialized := False\<rparr>"

text \<open>
  The \<open>for\<close> loop of \<open>getProxyHosts\<close>: it returns hosts, or it meets a 401 (the token is
  cleared and the function calls itself), or all attempts are used up.
\<close>

datatype loop_exit = Returned "NPMHost list" | Retry401 | Exhausted

fun fetch_attempts :: "npm_env \<Rightarrow> nat \<Rightarrow> NPMMonitor \<Rightarrow> loop_exit \<times> NPMMonitor" where
  "fetch_attempts env 0 m = (Exhausted, m)"
| "fetch_attempts env (Suc k) m =
     (case getHeaders env m of
        (Inl e, m1) \<Rightarrow> fetch_attempts env k m1
      | (Inr headers, m1) \<Rightarrow>
          (let m2 = m1\<lparr>exchanges := exchanges m1 + 1\<rparr> in
           case hostsResponse env (exchanges m1) of
             TransportError \<Rightarrow> fetch_attempts env k m2
           | Reply status body \<Rightarrow>
               if \<not> ok status then
                 (if status = 401 then (Retry401, m2\<lparr>token := None\<rparr>)
                  else fetch_attempts env k m2)
               else (case body of
                       None \<Rightarrow> fetch_attempts env k m2
                     | Some hosts \<Rightarrow> (Returned hosts, m2\<lparr>consecutiveFailures := 0\<rparr>))))"

text \<open>
  \<open>getProxyHosts\<close>. The call to itself after a 401 need not end (a server may answer 401
  for ever), so the first argument bounds the depth of these calls: \<open>None\<close> is "no result
  within that depth".
\<close>

fun getProxyHosts ::
  "nat \<Rightarrow> npm_env \<Rightarrow> NPMMonitor \<Rightarrow> ((npm_error + NPMHost list) \<times> NPMMonitor) option" where
  "getProxyHosts depth env m =
     (case fetch_attempts env maxRetries m of
        (Returned hosts, m1) \<Rightarrow> Some (Inr hosts, m1)
      | (Retry401, m1) \<Rightarrow>
          (case depth of 0 \<Rightarrow> None | Suc d \<Rightarrow> getProxyHosts d env m1)
      | (Exhausted, m1) \<Rightarrow>
          (let m2 = m1\<lparr>consecutiveFailures := consecutiveFailures m1 + 1\<rparr> in
           if consecutiveFailures m2 \<ge> maxConsecutiveFailures
           then Some (Inl Unreachable, stopMonitoring m2)
           else Some (Inr [], m2)))"

record changes =
  currentHosts :: "NPMHost list"
  changedHosts :: "NPMHost list"
  deletedHosts :: "NPMHost list"

definition hasChanged :: "(string \<Rightarrow> jsnum) \<Rightarrow> NPMHost \<Rightarrow> NPMHost \<Rightarrow> bool" where
  "hasChanged getTime currentHost previousHost =
     (strict_ne (getTime (modified_on currentHost)) (getTime (modified_on previousHost))
      \<or> forward_host currentHost \<noteq> forward_host previousHost
      \<or> forward_port currentHost \<noteq> forward_port previousHost
      \<or> JSON_stringify (domain_names currentHost) \<noteq> JSON_stringify (domain_names previousHost))"

text \<open>
  The body of \<open>getChangesSinceLastCheck\<close> after the hosts have been fetched. \<open>getTime s\<close>
  stands for \<open>new Date(s).getTime()\<close>, a built-in of the runtime taken as a parameter.
\<close>

definition detectChanges ::
  "(string \<Rightarrow> jsnum) \<Rightarrow> NPMHost list \<Rightarrow> NPMMonitor \<Rightarrow> changes \<times> NPMMonitor" where
  "detectChanges getTime current m =
     (if \<not> isInitialized m then
        (\<lparr>currentHosts = current, changedHosts = current, deletedHosts = []\<rparr>,
         m\<lparr>lastKnownHosts := current, isInitialized := True\<rparr>)
      else
        (let changed = filter (\<lambda>currentHost.
                 case find (\<lambda>h. id_host h = id_host currentHost) (lastKnownHosts m) of
                   None \<Rightarrow> True
                 | Some previousHost \<Rightarrow> hasChanged getTime currentHost previousHost) current;
             deleted = filter (\<lambda>previousHost.
                 \<not> list_ex (\<lambda>h. id_host h = id_host previousHost) current) (lastKnownHosts m)
         in (\<lparr>currentHosts = current, changedHosts = changed, deletedHosts = deleted\<rparr>,
             m\<lparr>lastKnownHosts := current\<rparr>)))"

definition getChangesSinceLastCheck ::
  "nat \<Rightarrow> (string \<Rightarrow> jsnum) \<Rightarrow> npm_env \<Rightarrow> NPMMonitor
   \<Rightarrow> ((npm_error + changes) \<times> NPMMonitor) option" where
  "getChangesSinceLastCheck depth getTime env m =
     (case getProxyHosts depth env m of
        None \<Rightarrow> None
      | Some (Inl e, m1) \<Rightarrow> Some (Inl e, m1)
      | Some (Inr hosts, m1) \<Rightarrow>
          (case detectChanges getTime hosts m1 of (r, m2) \<Rightarrow> Some (Inr r, m2)))"

text \<open>
  One run of the \<open>monitor\<close> closure of \<open>startMonitoring\<close>. The callback works on a state
  \<open>'w\<close> of its own and may fail; a failure is caught and only logged.
\<close>

definition monitor ::
  "nat \<Rightarrow> (string \<Rightarrow> jsnum) \<Rightarrow> npm_env
   \<Rightarrow> (NPMHost list \<Rightarrow> NPMHost list \<Rightarrow> NPMHost list \<Rightarrow> 'w \<Rightarrow> ('e + unit) \<times> 'w)
   \<Rightarrow> NPMMonitor \<times> 'w \<Rightarrow> (NPMMonitor \<times> 'w) option" where
  "monitor depth getTime env callback s =
     (let m = fst s; w = snd s;
          onError = (\<lambda>m'. if consecutiveFailures m' \<ge> maxConsecutiveFailures
                           then stopMonitoring m' else m')
      in (case getChangesSinceLastCheck depth getTime env m of
            None \<Rightarrow> None
          | Some (Inl e, m1) \<Rightarrow> Some (onError m1, w)
          | Some (Inr r, m1) \<Rightarrow>
              (if changedHosts r \<noteq> [] \<or> deletedHosts r \<noteq> [] then
                 (case callback (currentHosts r) (changedHosts r) (deletedHosts r) w of
                    (Inl e, w1) \<Rightarrow> Some (onError m1, w1)
                  | (Inr u, w1) \<Rightarrow> Some (m1, w1))
               else Some (m1, w))))"

text \<open>
  The normalisation of \<open>domain_names\<close>, as the orchestrator does it before use (index.ts):
  a string is split at commas, and every entry is trimmed.
\<close>

definition domainList :: "str_or_list \<Rightarrow> string list" where
  "domainList d = (case d of JArr xs \<Rightarrow> xs | JStr s \<Rightarrow> splitOn (CHR '','') s)"

definition normalizedDomains :: "str_or_list \<Rightarrow> string list" where
  "normalizedDomains d = map trim (domainList d)"

text \<open>The partition rule in the words of the specification, to compare the code with.\<close>

definition tracked :: "(string \<Rightarrow> jsnum) \<Rightarrow> NPMHost \<Rightarrow> jsnum \<times> string \<times> int \<times> str_or_list" where
  "tracked getTime h = (getTime (modified_on h), forward_host h, forward_port h, domain_names h)"

definition spec_changed :: "(string \<Rightarrow> jsnum) \<Rightarrow> NPMHost list \<Rightarrow> NPMHost list \<Rightarrow> NPMHost list" where
  "spec_changed getTime H1 H2 =
     filter (\<lambda>c. id_host c \<notin> id_host ` set H1
                 \<or> (\<exists>p \<in> set H1. id_host p = id_host c \<and> tracked getTime c \<noteq> tracked getTime p)) H2"

definition spec_deleted :: "NPMHost list \<Rightarrow> NPMHost list \<Rightarrow> NPMHost list" where
  "spec_deleted H1 H2 = filter (\<lambda>p. id_host p \<notin> id_host ` set H2) H1"

definition validDates :: "(string \<Rightarrow> jsnum) \<Rightarrow> NPMHost list \<Rightarrow> bool" where
  "validDates getTime hs = list_all (\<lambda>h. getTime (modified_on h) \<noteq> NaN) hs"



section \<open>HTTP exchanges of the DNS side, with a clock\<close>

text \<open>
  Everything the Cloudflare client, the public IP resolver and the orchestrator do to the
  outside is an HTTP exchange. The state keeps the requests sent, in order and with the
  time of sending, a clock in milliseconds (\<open>Date.now()\<close>; it advances by the latency of
  every exchange and by every wait), and the cache of the public IP resolver.
\<close>

record DNSRecord =
  id_rec :: string
  name_rec :: string
  type_rec :: string
  content_rec :: string
  proxied_rec :: bool

text \<open>\<open>Omit<DNSRecord, 'id'>\<close> and \<open>Partial<DNSRecord>\<close>.\<close>

record dns_data =
  name_new :: string
  type_new :: string
  content_new :: string
  proxied_new :: bool

record dns_patch =
  id_patch :: "string option"
  name_patch :: "string option"
  type_patch :: "string option"
  content_patch :: "string option"
  proxied_patch :: "bool option"

record CloudflareZone =
  id_zone :: string
  name_zone :: string

datatype http_method = GET | POST | PUT | DELETE

datatype request_body = NoBody | CreateBody dns_data | UpdateBody dns_patch

record request =
  method_req :: http_method
  url_req :: string
  body_req :: request_body

record exchange =
  sent_at :: nat
  sent :: request

record sys_state =
  clock :: nat
  exchanged :: nat
  requests :: "exchange list"
  cachedIP :: "string option"
  lastCheck :: nat

text \<open>
  What the outside answers. The \<open>k\<close>-th exchange (counted over all of them) takes
  \<open>latency k\<close> milliseconds. A Cloudflare request gets \<open>outcomeOf k\<close>: a transport
  failure, or a status with the \<open>Retry-After\<close> header and the body (one that cannot be
  read to its end, one that is read but is not JSON, or an envelope with its \<open>success\<close>
  flag). When the exchange succeeds the \<open>result\<close> of the
  envelope is what Cloudflare holds at that moment: \<open>zonesAt k\<close> are the zones of the
  account, \<open>recordsAt k z\<close> the records of the zone with id \<open>z\<close>, and \<open>recordAt k\<close> the
  record a create or update returns. A request to an IP service gets \<open>ipAt k\<close>.
\<close>

datatype envelope = Unreadable | Undecodable | Envelope bool

datatype outcome = NetworkError | Response nat "string option" envelope

datatype ip_data = DataObject "string option" | DataString string

datatype ip_outcome = IPFailure | IPResponse nat "ip_data option"

record world =
  latency :: "nat \<Rightarrow> nat"
  outcomeOf :: "nat \<Rightarrow> outcome"
  zonesAt :: "nat \<Rightarrow> CloudflareZone list"
  recordsAt :: "nat \<Rightarrow> string \<Rightarrow> DNSRecord list"
  recordAt :: "nat \<Rightarrow> DNSRecord"
  ipAt :: "nat \<Rightarrow> ip_outcome"

definition exchange :: "world \<Rightarrow> request \<Rightarrow> sys_state \<Rightarrow> nat \<times> sys_state" where
  "exchange w r s =
     (exchanged s,
      s\<lparr>requests := requests s @ [\<lparr>sent_at = clock s, sent = r\<rparr>],
        clock := clock s + latency w (exchanged s),
        exchanged := exchanged s + 1\<rparr>)"

text \<open>
  \<open>await new Promise(resolve => setTimeout(resolve, d))\<close>. The timer of Node.js takes a
  delay from 1 to \<open>TIMEOUT_MAX\<close> milliseconds; any other delay (smaller, larger, \<open>NaN\<close>
  or infinite) is set to 1 millisecond. The clock advances by the delay the timer takes.
\<close>

definition TIMEOUT_MAX :: int where
  "TIMEOUT_MAX = 2147483647"

definition timerDelay :: "jsnum \<Rightarrow> nat" where
  "timerDelay d =
     (case d of
        Num n \<Rightarrow> if 1 \<le> n \<and> n \<le> TIMEOUT_MAX then nat n else 1
      | _ \<Rightarrow> 1)"

definition sleep :: "jsnum \<Rightarrow> sys_state \<Rightarrow> sys_state" where
  "sleep d s = s\<lparr>clock := clock s + timerDelay d\<rparr>"


section \<open>The request layer of the Cloudflare client (cloudflare.ts, makeRequest)\<close>

datatype cf_error = CloudflareError nat | OtherError

definition retryDelay :: nat where
  "retryDelay = 1000"

definition delay :: "nat \<Rightarrow> sys_state \<Rightarrow> sys_state" where
  "delay attempt s = sleep (Num (int (min (retryDelay * 2 ^ attempt) 10000))) s"

text \<open>\<open>retryAfter ? parseInt(retryAfter, 10) * 1000 : this.retryDelay\<close>\<close>

definition rateLimitWait :: "string option \<Rightarrow> jsnum" where
  "rateLimitWait retryAfter =
     (case retryAfter of
        None \<Rightarrow> Num (int retryDelay)
      | Some h \<Rightarrow>
          if h = [] then Num (int retryDelay)
          else timesInt (parseInt10 h) 1000)"

text \<open>
  The loop of \<open>makeRequest\<close> from attempt number \<open>attempt\<close> on. \<open>result k\<close> is the
  \<open>result\<close> field of the envelope when exchange \<open>k\<close> succeeds. A \<open>CloudflareError\<close>
  carries its status code; every other error (transport, a body that cannot be read or
  decoded) is \<open>OtherError\<close>. The body of a response that is not \<open>ok\<close> is read with
  \<open>response.text()\<close> before the status is looked at, inside the \<open>try\<close> block: when that
  fails, the \<open>catch\<close> clause treats it like a transport failure.
\<close>

function makeRequest_from ::
  "world \<Rightarrow> (nat \<Rightarrow> 'a) \<Rightarrow> request \<Rightarrow> nat \<Rightarrow> sys_state \<Rightarrow> (cf_error + 'a) \<times> sys_state" where
  "makeRequest_from w result r attempt s =
     (if attempt < maxRetries then
        (case exchange w r s of (k, s1) \<Rightarrow>
           (case outcomeOf w k of
              NetworkError \<Rightarrow>
                (if attempt < maxRetries - 1
                 then makeRequest_from w result r (attempt + 1) (delay attempt s1)
                 else (Inl OtherError, s1))
            | Response status retryAfter b \<Rightarrow>
                (if \<not> ok status then
                   (if b = Unreadable then
                      (if attempt < maxRetries - 1
                       then makeRequest_from w result r (attempt + 1) (delay attempt s1)
                       else (Inl OtherError, s1))
                    else if status = 530 then (Inl (CloudflareError status), s1)
                    else if status = 429 then
                      (if attempt < maxRetries - 1
                       then makeRequest_from w result r (attempt + 1)
                              (sleep (rateLimitWait retryAfter) s1)
                       else (Inl (CloudflareError status), s1))
                    else if status = 403 then (Inl (CloudflareError status), s1)
                    else if status \<ge> 500 \<and> attempt < maxRetries - 1
                      then makeRequest_from w result r (attempt + 1) (delay attempt s1)
                    else (Inl (CloudflareError status), s1))
                 else
                   (case b of
                      Unreadable \<Rightarrow>
                        (if attempt < maxRetries - 1
                         then makeRequest_from w result r (attempt + 1) (delay attempt s1)
                         else (Inl OtherError, s1))
                    | Undecodable \<Rightarrow>
                        (if attempt < maxRetries - 1
                         then makeRequest_from w result r (attempt + 1) (delay attempt s1)
                         else (Inl OtherError, s1))
                    | Envelope success \<Rightarrow>
                        (if \<not> success then (Inl (CloudflareError status), s1)
                         else (Inr (result k), s1))))))
      else (Inl OtherError, s))"
  by pat_completeness auto
termination
  by (relation "measure (\<lambda>(w, result, r, attempt, s). maxRetries - attempt)") auto

definition makeRequest ::
  "world \<Rightarrow> (nat \<Rightarrow> 'a) \<Rightarrow> request \<Rightarrow> sys_state \<Rightarrow> (cf_error + 'a) \<times> sys_state" where
  "makeRequest w result r s = makeRequest_from w result r 0 s"


declare makeRequest_from.simps [simp del]


section \<open>The public IP resolver (public-ip.ts)\<close>

definition CACHE_DURATION :: int where
  "CACHE_DURATION = 300000"

definition MAX_RETRIES :: nat where
  "MAX_RETRIES = 3"

definition RETRY_DELAY :: int where
  "RETRY_DELAY = 2000"

text \<open>
  A service is its URL and the way its answer is read: \<open>data.ip\<close> of a JSON object, or
  \<open>data.trim()\<close> of a text.
\<close>

datatype extraction = IpField | Trimmed

record service =
  url_svc :: string
  extract_svc :: extraction

definition services :: "service list" where
  "services =
     [\<lparr>url_svc = ''https://api64.ipify.org?format=json'', extract_svc = IpField\<rparr>,
      \<lparr>url_svc = ''https://ip.seeip.org/jsonip'', extract_svc = IpField\<rparr>,
      \<lparr>url_svc = ''https://api.myip.com'', extract_svc = IpField\<rparr>,
      \<lparr>url_svc = ''https://ifconfig.me/ip'', extract_svc = Trimmed\<rparr>,
      \<lparr>url_svc = ''https://icanhazip.com'', extract_svc = Trimmed\<rparr>]"

text \<open>
  \<open>service.extract(data)\<close>. \<open>None\<close> is \<open>undefined\<close> (no \<open>ip\<close> property, or \<open>data\<close> is a
  string), and also stands for \<open>data.trim\<close> failing on an object: both end in the same
  \<open>catch\<close> clause.
\<close>

fun extract_ip :: "extraction \<Rightarrow> ip_data \<Rightarrow> string option" where
  "extract_ip IpField (DataObject ip) = ip"
| "extract_ip IpField (DataString t) = None"
| "extract_ip Trimmed (DataString t) = Some (trim t)"
| "extract_ip Trimmed (DataObject ip) = None"

text \<open>
  The test \<open>/^\d{1,3}\.\d{1,3}\.\d{1,3}\.\d{1,3}$/\<close>: the text between the dots is four
  groups, each of one to three decimal digits.
\<close>

definition digitGroup :: "string \<Rightarrow> bool" where
  "digitGroup g = (1 \<le> length g \<and> length g \<le> 3 \<and> list_all isDigit g)"

definition matchesIPv4 :: "string \<Rightarrow> bool" where
  "matchesIPv4 ip = (let groups = splitOn (CHR ''.'') ip in length groups = 4 \<and> list_all digitGroup groups)"

text \<open>
  One pass through the \<open>try\<close> block: the request, the status, the decoding, the
  extraction and the validation. \<open>Some ip\<close> is the address the block returns; \<open>None\<close>
  is any of its failures.
\<close>

definition validated :: "extraction \<Rightarrow> ip_outcome \<Rightarrow> string option" where
  "validated how out =
     (case out of
        IPFailure \<Rightarrow> None
      | IPResponse status body \<Rightarrow>
          if \<not> ok status then None
          else (case body of
                  None \<Rightarrow> None
                | Some data \<Rightarrow>
                    (case extract_ip how data of
                       None \<Rightarrow> None
                     | Some ip \<Rightarrow> if ip = [] \<or> \<not> matchesIPv4 ip then None else Some ip)))"

definition askService :: "world \<Rightarrow> service \<Rightarrow> sys_state \<Rightarrow> string option \<times> sys_state" where
  "askService w svc s =
     (case exchange w \<lparr>method_req = GET, url_req = url_svc svc, body_req = NoBody\<rparr> s of
        (k, s1) \<Rightarrow> (validated (extract_svc svc) (ipAt w k), s1))"

text \<open>The inner loop, with \<open>k\<close> attempts left, and the outer loop over the services.\<close>

fun tryService :: "world \<Rightarrow> service \<Rightarrow> nat \<Rightarrow> sys_state \<Rightarrow> string option \<times> sys_state" where
  "tryService w svc 0 s = (None, s)"
| "tryService w svc (Suc k) s =
     (case askService w svc s of
        (Some ip, s1) \<Rightarrow> (Some ip, s1)
      | (None, s1) \<Rightarrow> tryService w svc k (if 0 < k then sleep (Num RETRY_DELAY) s1 else s1))"

fun tryServices :: "world \<Rightarrow> service list \<Rightarrow> sys_state \<Rightarrow> string option \<times> sys_state" where
  "tryServices w [] s = (None, s)"
| "tryServices w (svc # rest) s =
     (case tryService w svc MAX_RETRIES s of
        (Some ip, s1) \<Rightarrow> (Some ip, s1)
      | (None, s1) \<Rightarrow> tryServices w rest s1)"

datatype sync_error = TokenRequired | NoPublicIP

definition truthy :: "string option \<Rightarrow> bool" where
  "truthy v = (case v of None \<Rightarrow> False | Some t \<Rightarrow> t \<noteq> [])"

definition fresh :: "sys_state \<Rightarrow> bool" where
  "fresh s = (truthy (cachedIP s) \<and> int (clock s) - int (lastCheck s) < CACHE_DURATION)"

definition getPublicIP :: "world \<Rightarrow> sys_state \<Rightarrow> (sync_error + string) \<times> sys_state" where
  "getPublicIP w s =
     (let now = clock s in
      if fresh s then (case cachedIP s of Some ip \<Rightarrow> (Inr ip, s) | None \<Rightarrow> (Inl NoPublicIP, s))
      else
        (case tryServices w services s of
           (Some ip, s1) \<Rightarrow> (Inr ip, s1\<lparr>cachedIP := Some ip, lastCheck := now\<rparr>)
         | (None, s1) \<Rightarrow>
             (case cachedIP s1 of
                Some ip \<Rightarrow> if ip \<noteq> [] then (Inr ip, s1) else (Inl NoPublicIP, s1)
              | None \<Rightarrow> (Inl NoPublicIP, s1))))"


section \<open>The Cloudflare client (cloudflare.ts)\<close>

definition baseUrl :: string where
  "baseUrl = ''https://api.cloudflare.com/client/v4''"

text \<open>The \<open>zones\<close> map (domain to zone id), with its keys in insertion order.\<close>

type_synonym zone_map = "(string \<times> string) list"

definition getZones :: "world \<Rightarrow> sys_state \<Rightarrow> CloudflareZone list \<times> sys_state" where
  "getZones w s =
     (case makeRequest w (zonesAt w)
             \<lparr>method_req = GET, url_req = baseUrl @ ''/zones'', body_req = NoBody\<rparr> s of
        (Inr zs, s1) \<Rightarrow> (zs, s1)
      | (Inl e, s1) \<Rightarrow> ([], s1))"

text \<open>
  \<open>getRootDomain\<close>: the loop over the keys of the map, and its body (the new value of
  \<open>bestMatch\<close> after looking at one zone name).
\<close>

definition betterMatch :: "string \<Rightarrow> string \<Rightarrow> string \<Rightarrow> string" where
  "betterMatch domain bestMatch zoneName =
     (if endsWith domain zoneName \<and> length zoneName > length bestMatch
      then zoneName else bestMatch)"

definition getRootDomain :: "zone_map \<Rightarrow> string \<Rightarrow> string" where
  "getRootDomain zones domain = foldl (betterMatch domain) [] (map fst zones)"

definition getZoneIdForDomain :: "zone_map \<Rightarrow> string \<Rightarrow> string option" where
  "getZoneIdForDomain zones domain = map_of zones (getRootDomain zones domain)"

definition recordsUrl :: "string \<Rightarrow> string" where
  "recordsUrl zoneId = baseUrl @ ''/zones/'' @ zoneId @ ''/dns_records''"

definition getDNSRecords :: "world \<Rightarrow> zone_map \<Rightarrow> string \<Rightarrow> sys_state \<Rightarrow> DNSRecord list \<times> sys_state" where
  "getDNSRecords w zones domain s =
     (case getZoneIdForDomain zones domain of
        None \<Rightarrow> ([], s)
      | Some zoneId \<Rightarrow>
          if zoneId = [] then ([], s)
          else
            (case makeRequest w (\<lambda>k. recordsAt w k zoneId)
                    \<lparr>method_req = GET, url_req = recordsUrl zoneId, body_req = NoBody\<rparr> s of
               (Inr records, s1) \<Rightarrow> (records, s1)
             | (Inl e, s1) \<Rightarrow> ([], s1)))"

definition isWildcardA :: "string \<Rightarrow> DNSRecord \<Rightarrow> bool" where
  "isWildcardA rootDomain record = (type_rec record = ''A'' \<and> name_rec record = ''*.'' @ rootDomain)"

definition hasWildcardARecord :: "world \<Rightarrow> zone_map \<Rightarrow> string \<Rightarrow> sys_state \<Rightarrow> bool \<times> sys_state" where
  "hasWildcardARecord w zones domain s =
     (let rootDomain = getRootDomain zones domain in
      case getDNSRecords w zones rootDomain s of
        (records, s1) \<Rightarrow> (find (isWildcardA rootDomain) records \<noteq> None, s1))"

definition createDNSRecord ::
  "world \<Rightarrow> zone_map \<Rightarrow> string \<Rightarrow> dns_data \<Rightarrow> sys_state \<Rightarrow> DNSRecord option \<times> sys_state" where
  "createDNSRecord w zones domain data s =
     (case getZoneIdForDomain zones domain of
        None \<Rightarrow> (None, s)
      | Some zoneId \<Rightarrow>
          if zoneId = [] then (None, s)
          else
            (case (if type_new data = ''CNAME'' then hasWildcardARecord w zones domain s
                   else (False, s)) of
               (hasWildcard, s1) \<Rightarrow>
                 if hasWildcard then (None, s1)
                 else
                   (case makeRequest w (recordAt w)
                           \<lparr>method_req = POST, url_req = recordsUrl zoneId,
                            body_req = CreateBody data\<rparr> s1 of
                      (Inr record, s2) \<Rightarrow> (Some record, s2)
                    | (Inl e, s2) \<Rightarrow> (None, s2))))"

definition updateDNSRecord ::
  "world \<Rightarrow> zone_map \<Rightarrow> string \<Rightarrow> string \<Rightarrow> dns_patch \<Rightarrow> sys_state \<Rightarrow> DNSRecord option \<times> sys_state" where
  "updateDNSRecord w zones domain recordId data s =
     (case getZoneIdForDomain zones domain of
        None \<Rightarrow> (None, s)
      | Some zoneId \<Rightarrow>
          if zoneId = [] then (None, s)
          else
            (case (if type_patch data = Some ''CNAME'' then hasWildcardARecord w zones domain s
                   else (False, s)) of
               (hasWildcard, s1) \<Rightarrow>
                 if hasWildcard then (None, s1)
                 else
                   (case makeRequest w (recordAt w)
                           \<lparr>method_req = PUT, url_req = recordsUrl zoneId @ ''/'' @ recordId,
                            body_req = UpdateBody data\<rparr> s1 of
                      (Inr record, s2) \<Rightarrow> (Some record, s2)
                    | (Inl e, s2) \<Rightarrow> (None, s2))))"

definition deleteDNSRecord ::
  "world \<Rightarrow> zone_map \<Rightarrow> string \<Rightarrow> string \<Rightarrow> sys_state \<Rightarrow> bool \<times> sys_state" where
  "deleteDNSRecord w zones domain recordId s =
     (case getZoneIdForDomain zones domain of
        None \<Rightarrow> (False, s)
      | Some zoneId \<Rightarrow>
          if zoneId = [] then (False, s)
          else
            (case makeRequest w (\<lambda>k. ())
                    \<lparr>method_req = DELETE, url_req = recordsUrl zoneId @ ''/'' @ recordId,
                     body_req = NoBody\<rparr> s of
               (Inr u, s1) \<Rightarrow> (True, s1)
             | (Inl e, s1) \<Rightarrow> (False, s1)))"

text \<open>\<open>{...aRecord, content: publicIP}\<close> starts from all the fields of the record.\<close>

definition allFields :: "DNSRecord \<Rightarrow> dns_patch" where
  "allFields r =
     \<lparr>id_patch = Some (id_rec r), name_patch = Some (name_rec r), type_patch = Some (type_rec r),
      content_patch = Some (content_rec r), proxied_patch = Some (proxied_rec r)\<rparr>"

text \<open>The body of the loop of \<open>updateRootDomainRecords\<close>, for one zone.\<close>

definition reconcileRoot :: "world \<Rightarrow> zone_map \<Rightarrow> string \<Rightarrow> string \<Rightarrow> sys_state \<Rightarrow> sys_state" where
  "reconcileRoot w zones publicIP domain s =
     (case getDNSRecords w zones domain s of
        (records, s1) \<Rightarrow>
          (case find (\<lambda>r. type_rec r = ''A'' \<and> name_rec r = domain) records of
             Some aRecord \<Rightarrow>
               if content_rec aRecord \<noteq> publicIP
               then snd (updateDNSRecord w zones domain (id_rec aRecord)
                           ((allFields aRecord)\<lparr>content_patch := Some publicIP\<rparr>) s1)
               else s1
           | None \<Rightarrow>
               snd (createDNSRecord w zones domain
                      \<lparr>name_new = domain, type_new = ''A'', content_new = publicIP,
                       proxied_new = True\<rparr> s1)))"

definition updateRootDomainRecords :: "world \<Rightarrow> zone_map \<Rightarrow> sys_state \<Rightarrow> sys_state" where
  "updateRootDomainRecords w zones s =
     (case getPublicIP w s of
        (Inl e, s1) \<Rightarrow> s1
      | (Inr publicIP, s1) \<Rightarrow>
          foldl (\<lambda>s' domain. reconcileRoot w zones publicIP domain s') s1 (map fst zones))"

definition initZones :: "world \<Rightarrow> sys_state \<Rightarrow> zone_map \<times> sys_state" where
  "initZones w s =
     (case getZones w s of
        (zs, s1) \<Rightarrow>
          (let zones = foldl (\<lambda>m z. AList.update (name_zone z) (id_zone z) m) [] zs
           in (zones, updateRootDomainRecords w zones s1)))"


section \<open>The orchestrator (index.ts)\<close>

record config =
  apiToken :: string
  autoCreateRootRecords :: bool

definition ensureRootDomainRecord ::
  "config \<Rightarrow> world \<Rightarrow> zone_map \<Rightarrow> string \<Rightarrow> sys_state \<Rightarrow> (sync_error + bool) \<times> sys_state" where
  "ensureRootDomainRecord cfg w zones domain s =
     (let rootDomain = getRootDomain zones domain in
      if rootDomain = [] then (Inr False, s)
      else if domain = rootDomain then (Inr True, s)
      else
        (case getDNSRecords w zones rootDomain s of
           (rootRecords, s1) \<Rightarrow>
             (case find (\<lambda>r. type_rec r = ''A'' \<and> name_rec r = rootDomain) rootRecords of
                Some rootARecord \<Rightarrow> (Inr True, s1)
              | None \<Rightarrow>
                  if \<not> autoCreateRootRecords cfg then (Inr False, s1)
                  else
                    (case getPublicIP w s1 of
                       (Inl e, s2) \<Rightarrow> (Inl e, s2)
                     | (Inr publicIP, s2) \<Rightarrow>
                         (case createDNSRecord w zones rootDomain
                                 \<lparr>name_new = rootDomain, type_new = ''A'',
                                  content_new = publicIP, proxied_new = True\<rparr> s2 of
                            (None, s3) \<Rightarrow> (Inr False, s3)
                          | (Some created, s3) \<Rightarrow> (Inr True, s3))))))"

text \<open>The body of the loop over the domains of a deleted host.\<close>

definition deleteDomain :: "world \<Rightarrow> zone_map \<Rightarrow> string \<Rightarrow> sys_state \<Rightarrow> sys_state" where
  "deleteDomain w zones domain s =
     (let domainName = trim domain in
      case getDNSRecords w zones domainName s of
        (existingRecords, s1) \<Rightarrow>
          (case find (\<lambda>r. name_rec r = domainName) existingRecords of
             Some existingRecord \<Rightarrow>
               snd (deleteDNSRecord w zones domainName (id_rec existingRecord) s1)
           | None \<Rightarrow> s1))"

definition handleDeleted :: "world \<Rightarrow> zone_map \<Rightarrow> NPMHost list \<Rightarrow> sys_state \<Rightarrow> sys_state" where
  "handleDeleted w zones deleted s =
     foldl (\<lambda>s' host. foldl (\<lambda>s'' domain. deleteDomain w zones domain s'') s'
                          (domainList (domain_names host)))
           s deleted"

text \<open>
  The body of the loop over the domains of a changed or new host. \<open>continue\<close> is the
  result \<open>Inr ()\<close>; an exception (\<open>getPublicIP\<close> failing) is \<open>Inl\<close> and ends both loops.
\<close>

definition processDomain ::
  "config \<Rightarrow> world \<Rightarrow> zone_map \<Rightarrow> string \<Rightarrow> sys_state \<Rightarrow> (sync_error + unit) \<times> sys_state" where
  "processDomain cfg w zones domain s =
     (let domainName = trim domain;
          rootDomain = getRootDomain zones domainName
      in
      case (if domainName \<noteq> rootDomain then ensureRootDomainRecord cfg w zones domainName s
            else (Inr True, s)) of
        (Inl e, s1) \<Rightarrow> (Inl e, s1)
      | (Inr success, s1) \<Rightarrow>
          if \<not> success then (Inr (), s1)
          else
            (case getDNSRecords w zones domainName s1 of
               (existingRecords, s2) \<Rightarrow>
                 (case find (\<lambda>r. name_rec r = domainName) existingRecords of
                    Some existingRecord \<Rightarrow> (Inr (), s2)
                  | None \<Rightarrow>
                      if domainName \<noteq> rootDomain then
                        (Inr (), snd (createDNSRecord w zones domainName
                                        \<lparr>name_new = domainName, type_new = ''CNAME'',
                                         content_new = rootDomain, proxied_new = True\<rparr> s2))
                      else
                        (case getPublicIP w s2 of
                           (Inl e, s3) \<Rightarrow> (Inl e, s3)
                         | (Inr currentIP, s3) \<Rightarrow>
                             if autoCreateRootRecords cfg then
                               (Inr (), snd (createDNSRecord w zones domainName
                                               \<lparr>name_new = domainName, type_new = ''A'',
                                                content_new = currentIP, proxied_new = True\<rparr> s3))
                             else (Inr (), s3)))))"

fun processDomains ::
  "config \<Rightarrow> world \<Rightarrow> zone_map \<Rightarrow> string list \<Rightarrow> sys_state \<Rightarrow> (sync_error + unit) \<times> sys_state" where
  "processDomains cfg w zones [] s = (Inr (), s)"
| "processDomains cfg w zones (domain # rest) s =
     (case processDomain cfg w zones domain s of
        (Inl e, s1) \<Rightarrow> (Inl e, s1)
      | (Inr u, s1) \<Rightarrow> processDomains cfg w zones rest s1)"

fun handleChanged ::
  "config \<Rightarrow> world \<Rightarrow> zone_map \<Rightarrow> NPMHost list \<Rightarrow> sys_state \<Rightarrow> (sync_error + unit) \<times> sys_state" where
  "handleChanged cfg w zones [] s = (Inr (), s)"
| "handleChanged cfg w zones (host # rest) s =
     (case processDomains cfg w zones (domainList (domain_names host)) s of
        (Inl e, s1) \<Rightarrow> (Inl e, s1)
      | (Inr u, s1) \<Rightarrow> handleChanged cfg w zones rest s1)"

text \<open>
  \<open>handleNPMChanges\<close>: a new client (its constructor refuses an empty token),
  \<open>initZones\<close>, the deleted hosts, then the changed and new hosts.
\<close>

definition handleNPMChanges ::
  "config \<Rightarrow> world \<Rightarrow> NPMHost list \<Rightarrow> NPMHost list \<Rightarrow> NPMHost list \<Rightarrow> sys_state
   \<Rightarrow> (sync_error + unit) \<times> sys_state" where
  "handleNPMChanges cfg w currentHosts' changedHosts' deletedHosts' s =
     (if apiToken cfg = [] then (Inl TokenRequired, s)
      else
        (case initZones w s of
           (zones, s1) \<Rightarrow>
             handleChanged cfg w zones changedHosts'
               (handleDeleted w zones deletedHosts' s1)))"


section \<open>Reading the log of requests\<close>

text \<open>
  \<open>issued s s'\<close> are the requests sent between the states \<open>s\<close> and \<open>s'\<close>.
  \<open>run P s s'\<close> says that \<open>s'\<close> comes after \<open>s\<close>: its log is the log of \<open>s\<close> followed by
  requests that all satisfy \<open>P\<close>, and its clock is not earlier.
\<close>

definition issued :: "sys_state \<Rightarrow> sys_state \<Rightarrow> exchange list" where
  "issued s s' = drop (length (requests s)) (requests s')"

definition run :: "(exchange \<Rightarrow> bool) \<Rightarrow> sys_state \<Rightarrow> sys_state \<Rightarrow> bool" where
  "run P s s' = (\<exists>es. requests s' = requests s @ es \<and> list_all P es \<and> clock s \<le> clock s')"

text \<open>
  The attempts of the resolver are numbered in the order they are made: attempt \<open>n\<close>
  asks service number \<open>n div MAX_RETRIES\<close>, and it is exchange \<open>base + n\<close> when the first
  attempt is exchange \<open>base\<close>. \<open>answer\<close> is the address that attempt gives, if any.
\<close>

definition answer :: "world \<Rightarrow> service list \<Rightarrow> nat \<Rightarrow> nat \<Rightarrow> string option" where
  "answer w svcs base n =
     validated (extract_svc (svcs ! (n div MAX_RETRIES))) (ipAt w (base + n))"

text \<open>
  Kinds of requests: what a create, an update or a delete operation of the client may
  send (it may also read), and a request that creates a record of a given name.
\<close>

definition creation :: "dns_data \<Rightarrow> exchange \<Rightarrow> bool" where
  "creation data e =
     (method_req (sent e) = GET
      \<or> (method_req (sent e) = POST \<and> body_req (sent e) = CreateBody data))"

definition updating :: "exchange \<Rightarrow> bool" where
  "updating e = (method_req (sent e) = GET \<or> method_req (sent e) = PUT)"

definition deleting :: "exchange \<Rightarrow> bool" where
  "deleting e = (method_req (sent e) = GET \<or> method_req (sent e) = DELETE)"

definition creating :: "exchange \<Rightarrow> bool" where
  "creating e = (method_req (sent e) = GET \<or> method_req (sent e) = POST)"

definition createsFor :: "string \<Rightarrow> exchange \<Rightarrow> bool" where
  "createsFor name e =
     (method_req (sent e) = POST
      \<and> (case body_req (sent e) of CreateBody d \<Rightarrow> name_new d = name | _ \<Rightarrow> False))"

text \<open>
  The domains of a list of hosts, in the order in which the loops of the orchestrator
  take them: host after host, and the entries of \<open>domain_names\<close> of a host from left to
  right.
\<close>

definition domainsOf :: "NPMHost list \<Rightarrow> string list" where
  "domainsOf hosts = concat (map (\<lambda>host. domainList (domain_names host)) hosts)"

section \<open>Example data\<close>

definition exampleTime :: "string \<Rightarrow> jsnum" where
  "exampleTime s =
     (if s = ''2024-01-01T00:00:00.000Z'' then Num 1704067200000
      else if s = ''2024-01-02T00:00:00.000Z'' then Num 1704153600000
      else NaN)"

definition hostA :: NPMHost where
  "hostA = \<lparr>id_host = 1, domain_names = JArr [''a.example.com''], forward_host = ''10.0.0.5'',
            forward_port = 8080, created_on = ''2024-01-01T00:00:00.000Z'',
            modified_on = ''2024-01-01T00:00:00.000Z''\<rparr>"

definition hostB :: NPMHost where
  "hostB = \<lparr>id_host = 2, domain_names = JStr ''b.example.com, www.example.com'',
            forward_host = ''10.0.0.6'',
            forward_port = 8081, created_on = ''2024-01-01T00:00:00.000Z'',
            modified_on = ''2024-01-01T00:00:00.000Z''\<rparr>"

definition hostC :: NPMHost where
  "hostC = \<lparr>id_host = 3, domain_names = JArr [''c.example.com''], forward_host = ''10.0.0.7'',
            forward_port = 443, created_on = ''2024-01-02T00:00:00.000Z'',
            modified_on = ''2024-01-02T00:00:00.000Z''\<rparr>"

definition monitorA :: NPMMonitor where
  "monitorA = \<lparr>token = Some ''jwt'', monitorInterval = True, isMonitoring = True,
               lastKnownHosts = [hostA, hostB], consecutiveFailures = 0,
               isInitialized = True, exchanges = 7\<rparr>"

definition hostB_listed :: NPMHost where
  "hostB_listed = hostB\<lparr>domain_names := JArr [''b.example.com'', ''www.example.com'']\<rparr>"

definition npmDown :: npm_env where
  "npmDown = \<lparr>loginResponse = (\<lambda>k. TransportError),
              hostsResponse = (\<lambda>k. if k = 8 then Reply 502 None else TransportError)\<rparr>"

definition zonesAB :: zone_map where
  "zonesAB = [(''b.com'', ''zone-1''), (''a.b.com'', ''zone-2''), (''example.org'', ''zone-3'')]"

definition zonesRequest :: request where
  "zonesRequest = \<lparr>method_req = GET, url_req = baseUrl @ ''/zones'', body_req = NoBody\<rparr>"

definition startState :: sys_state where
  "startState = \<lparr>clock = 1000, exchanged = 0, requests = [], cachedIP = None, lastCheck = 0\<rparr>"

definition blankRecord :: DNSRecord where
  "blankRecord = \<lparr>id_rec = ''r0'', name_rec = ''example.com'', type_rec = ''A'',
                  content_rec = ''192.0.2.1'', proxied_rec = True\<rparr>"

definition rateLimitedWorld :: world where
  "rateLimitedWorld =
     \<lparr>latency = (\<lambda>k. 50),
      outcomeOf = (\<lambda>k. if k = 0 then Response 429 (Some ''2'') Undecodable
                        else if k = 1 then Response 530 None Undecodable
                        else Response 200 None (Envelope True)),
      zonesAt = (\<lambda>k. []), recordsAt = (\<lambda>k z. []), recordAt = (\<lambda>k. blankRecord),
      ipAt = (\<lambda>k. IPFailure)\<rparr>"

definition staleState :: sys_state where
  "staleState = \<lparr>clock = 1700000900000, exchanged = 0, requests = [],
                  cachedIP = Some ''203.0.113.7'', lastCheck = 1700000000000\<rparr>"

definition providersDown :: world where
  "providersDown =
     \<lparr>latency = (\<lambda>k. 50), outcomeOf = (\<lambda>k. NetworkError),
      zonesAt = (\<lambda>k. []), recordsAt = (\<lambda>k z. []), recordAt = (\<lambda>k. blankRecord),
      ipAt = (\<lambda>k. if k = 1 then IPResponse 503 None else IPFailure)\<rparr>"

definition secondProviderAnswers :: world where
  "secondProviderAnswers =
     \<lparr>latency = (\<lambda>k. 50), outcomeOf = (\<lambda>k. NetworkError),
      zonesAt = (\<lambda>k. []), recordsAt = (\<lambda>k z. []), recordAt = (\<lambda>k. blankRecord),
      ipAt = (\<lambda>k. if k < 3 then IPResponse 200 (Some (DataObject (Some ''1.2.3'')))
                   else if k = 3 then IPResponse 200 (Some (DataObject (Some ''198.51.100.24'')))
                   else IPResponse 200 (Some (DataString ''192.0.2.99'')))\<rparr>"

definition outOfRangeWorld :: world where
  "outOfRangeWorld =
     \<lparr>latency = (\<lambda>k. 50), outcomeOf = (\<lambda>k. NetworkError),
      zonesAt = (\<lambda>k. []), recordsAt = (\<lambda>k z. []), recordAt = (\<lambda>k. blankRecord),
      ipAt = (\<lambda>k. IPResponse 200 (Some (DataObject (Some ''999.999.999.999''))))\<rparr>"

definition oneZone :: zone_map where
  "oneZone = [(''example.com'', ''zone-1'')]"

definition wildcardRecord :: DNSRecord where
  "wildcardRecord = \<lparr>id_rec = ''r-wild'', name_rec = ''*.example.com'', type_rec = ''A'',
                     content_rec = ''203.0.113.7'', proxied_rec = True\<rparr>"

definition subCname :: dns_data where
  "subCname = \<lparr>name_new = ''sub.example.com'', type_new = ''CNAME'',
               content_new = ''example.com'', proxied_new = True\<rparr>"

definition subRecord :: DNSRecord where
  "subRecord = \<lparr>id_rec = ''r-sub'', name_rec = ''sub.example.com'', type_rec = ''CNAME'',
                content_rec = ''example.com'', proxied_rec = True\<rparr>"

definition listingFails :: world where
  "listingFails =
     \<lparr>latency = (\<lambda>k. 50),
      outcomeOf = (\<lambda>k. if k < 3 then NetworkError else Response 200 None (Envelope True)),
      zonesAt = (\<lambda>k. [\<lparr>id_zone = ''zone-1'', name_zone = ''example.com''\<rparr>]),
      recordsAt = (\<lambda>k z. if z = ''zone-1'' then [wildcardRecord] else []),
      recordAt = (\<lambda>k. subRecord),
      ipAt = (\<lambda>k. IPFailure)\<rparr>"

definition readRecords :: request where
  "readRecords = \<lparr>method_req = GET, url_req = recordsUrl ''zone-1'', body_req = NoBody\<rparr>"

definition afterThreeFailures :: sys_state where
  "afterThreeFailures =
     \<lparr>clock = 4150, exchanged = 3,
      requests = [\<lparr>sent_at = 1000, sent = readRecords\<rparr>, \<lparr>sent_at = 2050, sent = readRecords\<rparr>,
                  \<lparr>sent_at = 4100, sent = readRecords\<rparr>],
      cachedIP = None, lastCheck = 0\<rparr>"

definition wildcardZone :: world where
  "wildcardZone =
     \<lparr>latency = (\<lambda>k. 50),
      outcomeOf = (\<lambda>k. Response 200 None (Envelope True)),
      zonesAt = (\<lambda>k. [\<lparr>id_zone = ''zone-1'', name_zone = ''example.com''\<rparr>]),
      recordsAt = (\<lambda>k z. if z = ''zone-1'' then [wildcardRecord] else []),
      recordAt = (\<lambda>k. subRecord),
      ipAt = (\<lambda>k. IPFailure)\<rparr>"

definition afterListing :: sys_state where
  "afterListing =
     \<lparr>clock = 1050, exchanged = 1, requests = [\<lparr>sent_at = 1000, sent = readRecords\<rparr>],
      cachedIP = None, lastCheck = 0\<rparr>"

definition cnamePatch :: dns_patch where
  "cnamePatch = \<lparr>id_patch = None, name_patch = None, type_patch = Some ''CNAME'',
                 content_patch = Some ''example.com'', proxied_patch = None\<rparr>"

definition rootRecord :: DNSRecord where
  "rootRecord = \<lparr>id_rec = ''r-root'', name_rec = ''example.com'', type_rec = ''A'',
                 content_rec = ''203.0.113.7'', proxied_rec = True\<rparr>"

definition manualRoots :: config where
  "manualRoots = \<lparr>apiToken = ''token'', autoCreateRootRecords = False\<rparr>"


text \<open>
  A world in which every exchange succeeds: one zone with a root A record, a record for
  \<open>old.example.com\<close> and one for \<open>sub.example.com\<close>. \<open>stateAt k l\<close> is the state after \<open>k\<close>
  exchanges of 50 ms each, started at time 1000, with the log \<open>l\<close>.
\<close>

definition oldRecord :: DNSRecord where
  "oldRecord = \<lparr>id_rec = ''r-old'', name_rec = ''old.example.com'', type_rec = ''CNAME'',
                content_rec = ''example.com'', proxied_rec = True\<rparr>"

definition newCname :: dns_data where
  "newCname = \<lparr>name_new = ''new.example.com'', type_new = ''CNAME'',
               content_new = ''example.com'', proxied_new = True\<rparr>"

definition newRecord :: DNSRecord where
  "newRecord = \<lparr>id_rec = ''r-new'', name_rec = ''new.example.com'', type_rec = ''CNAME'',
                content_rec = ''example.com'', proxied_rec = True\<rparr>"

definition steady :: world where
  "steady =
     \<lparr>latency = (\<lambda>k. 50),
      outcomeOf = (\<lambda>k. Response 200 None (Envelope True)),
      zonesAt = (\<lambda>k. [\<lparr>id_zone = ''zone-1'', name_zone = ''example.com''\<rparr>]),
      recordsAt = (\<lambda>k z. if z = ''zone-1'' then [rootRecord, oldRecord, subRecord] else []),
      recordAt = (\<lambda>k. newRecord),
      ipAt = (\<lambda>k. IPResponse 200 (Some (DataObject (Some ''203.0.113.7''))))\<rparr>"

definition hostOld :: NPMHost where
  "hostOld = \<lparr>id_host = 7, domain_names = JStr ''old.example.com'', forward_host = ''10.0.0.8'',
              forward_port = 8080, created_on = ''2024-01-01T00:00:00.000Z'',
              modified_on = ''2024-01-01T00:00:00.000Z''\<rparr>"

definition hostNew :: NPMHost where
  "hostNew = \<lparr>id_host = 9, domain_names = JArr ['' sub.example.com'', ''new.example.com''],
              forward_host = ''10.0.0.9'',
              forward_port = 8080, created_on = ''2024-01-02T00:00:00.000Z'',
              modified_on = ''2024-01-02T00:00:00.000Z''\<rparr>"

definition ipRequest :: request where
  "ipRequest = \<lparr>method_req = GET, url_req = ''https://api64.ipify.org?format=json'', body_req = NoBody\<rparr>"

definition deleteOld :: request where
  "deleteOld = \<lparr>method_req = DELETE, url_req = recordsUrl ''zone-1'' @ ''/'' @ ''r-old'', body_req = NoBody\<rparr>"

definition createNew :: request where
  "createNew = \<lparr>method_req = POST, url_req = recordsUrl ''zone-1'', body_req = CreateBody newCname\<rparr>"

definition initLog :: "exchange list" where
  "initLog = [\<lparr>sent_at = 1000, sent = zonesRequest\<rparr>, \<lparr>sent_at = 1050, sent = ipRequest\<rparr>,
              \<lparr>sent_at = 1100, sent = readRecords\<rparr>]"

definition deletedLog :: "exchange list" where
  "deletedLog = [\<lparr>sent_at = 1150, sent = readRecords\<rparr>, \<lparr>sent_at = 1200, sent = deleteOld\<rparr>]"

definition skipLog :: "exchange list" where
  "skipLog = [\<lparr>sent_at = 1250, sent = readRecords\<rparr>, \<lparr>sent_at = 1300, sent = readRecords\<rparr>]"

definition createLog :: "exchange list" where
  "createLog = [\<lparr>sent_at = 1350, sent = readRecords\<rparr>, \<lparr>sent_at = 1400, sent = readRecords\<rparr>,
                \<lparr>sent_at = 1450, sent = readRecords\<rparr>, \<lparr>sent_at = 1500, sent = createNew\<rparr>]"

definition stateAt :: "nat \<Rightarrow> exchange list \<Rightarrow> sys_state" where
  "stateAt k sent_so_far =
     \<lparr>clock = 1000 + 50 * k, exchanged = k, requests = sent_so_far,
      cachedIP = Some ''203.0.113.7'', lastCheck = 1050\<rparr>"

definition afterInit :: sys_state where
  "afterInit = stateAt 3 initLog"

definition afterDeleted :: sys_state where
  "afterDeleted = stateAt 5 (initLog @ deletedLog)"

definition afterSkip :: sys_state where
  "afterSkip = stateAt 7 (initLog @ deletedLog @ skipLog)"

definition afterChanged :: sys_state where
  "afterChanged = stateAt 11 (initLog @ deletedLog @ skipLog @ createLog)"


text \<open>
  A rate limit that asks for a wait of 2147484 seconds, which is 353 ms more than the
  longest delay of the timer.
\<close>

definition longRetryAfter :: world where
  "longRetryAfter =
     \<lparr>latency = (\<lambda>k. 50),
      outcomeOf = (\<lambda>k. if k = 0 then Response 429 (Some ''2147484'') Undecodable
                        else if k = 1 then Response 530 None Undecodable
                        else Response 200 None (Envelope True)),
      zonesAt = (\<lambda>k. []), recordsAt = (\<lambda>k z. []), recordAt = (\<lambda>k. blankRecord),
      ipAt = (\<lambda>k. IPFailure)\<rparr>"

text \<open>A monitor that knows the host \<open>hostOld\<close> from its last poll.\<close>

definition monitorOld :: NPMMonitor where
  "monitorOld = monitorA\<lparr>lastKnownHosts := [hostOld]\<rparr>"

section \<open>Facts about the built-ins\<close>

lemma hexDigit_inj: "n < 16 \<Longrightarrow> m < 16 \<Longrightarrow> hexDigit n = hexDigit m \<Longrightarrow> n = m"
  by (auto simp: hexDigit_def split: if_splits)

lemma hex_pair_inj:
  assumes "(of_char c :: nat) < 32" "(of_char d :: nat) < 32"
    and "hexDigit (of_char c div 16) = hexDigit (of_char d div 16)"
    and "hexDigit (of_char c mod 16) = hexDigit (of_char d mod 16)"
  shows "c = d"
proof -
  let ?m = "of_char c :: nat" and ?n = "of_char d :: nat"
  have "?m div 16 = ?n div 16"
    using assms(1,2,3) by (intro hexDigit_inj) auto
  moreover have "?m mod 16 = ?n mod 16"
    using assms(4) by (intro hexDigit_inj) auto
  ultimately have "?m = ?n"
    by (metis div_mult_mod_eq)
  then show ?thesis by simp
qed

lemma quoteJSONChar_cases:
  "(quoteJSONChar c = [c] \<and> c \<noteq> CHR 0x5C \<and> c \<noteq> CHR 0x22)
   \<or> (\<exists>e. quoteJSONChar c = [CHR 0x5C, e] \<and> e \<noteq> CHR ''u'')
   \<or> (quoteJSONChar c = [CHR 0x5C, CHR ''u'', CHR ''0'', CHR ''0'',
             hexDigit (of_char c div 16), hexDigit (of_char c mod 16)] \<and> (of_char c :: nat) < 32)"
  by (simp add: quoteJSONChar_def)

lemma quoteJSONChar_head: "\<exists>a as. quoteJSONChar c = a # as \<and> a \<noteq> CHR 0x22"
  using quoteJSONChar_cases [of c] by auto

lemma quoteJSONChar_two:
  "quoteJSONChar c = [CHR 0x5C, e] \<Longrightarrow> quoteJSONChar d = [CHR 0x5C, e] \<Longrightarrow> c = d"
  by (auto simp: quoteJSONChar_def split: if_splits)

text \<open>No escape sequence is the beginning of another: the quoted text can be read back.\<close>

lemma quoteJSONChar_prefix_free:
  assumes "quoteJSONChar c @ xs = quoteJSONChar d @ ys"
  shows "c = d \<and> xs = ys"
  using quoteJSONChar_cases [of c] quoteJSONChar_cases [of d] assms
  by (elim disjE exE conjE) (auto dest: quoteJSONChar_two hex_pair_inj)

lemma quoted_body_inj:
  "concat (map quoteJSONChar s) @ CHR 0x22 # xs = concat (map quoteJSONChar t) @ CHR 0x22 # ys
   \<Longrightarrow> s = t \<and> xs = ys"
proof (induction s arbitrary: t)
  case Nil
  then show ?case
  proof (cases t)
    case (Cons d t')
    with Nil quoteJSONChar_head [of d] show ?thesis by auto
  qed simp
next
  case (Cons c s)
  show ?case
  proof (cases t)
    case Nil
    with Cons.prems quoteJSONChar_head [of c] show ?thesis by auto
  next
    case (Cons d t')
    with Cons.prems have
      "quoteJSONChar c @ (concat (map quoteJSONChar s) @ CHR 0x22 # xs)
       = quoteJSONChar d @ (concat (map quoteJSONChar t') @ CHR 0x22 # ys)"
      by simp
    from quoteJSONChar_prefix_free [OF this] Cons.IH [of t'] Cons show ?thesis by simp
  qed
qed

lemma quoteJSONString_prefix_free:
  "quoteJSONString s @ xs = quoteJSONString t @ ys \<Longrightarrow> s = t \<and> xs = ys"
  using quoted_body_inj [of s xs t ys] by (simp add: quoteJSONString_def)

lemma quoteJSONString_head: "\<exists>as. quoteJSONString s = CHR 0x22 # as"
  by (simp add: quoteJSONString_def)

lemma joinComma_quoted_inj:
  "joinComma (map quoteJSONString xs) @ [CHR '']''] = joinComma (map quoteJSONString ys) @ [CHR '']'']
   \<Longrightarrow> xs = ys"
proof (induction xs arbitrary: ys)
  case Nil
  then show ?case
  proof (cases ys)
    case (Cons y ys')
    with Nil quoteJSONString_head [of y] show ?thesis
      by (cases ys') auto
  qed simp
next
  case (Cons x xs)
  note prems = Cons.prems and IH = Cons.IH
  show ?case
  proof (cases ys)
    case Nil
    with prems quoteJSONString_head [of x] show ?thesis
      by (cases xs) auto
  next
    case (Cons y ys')
    note ys_cons = Cons
    let ?close = "[CHR '']'']"
    let ?more = "\<lambda>zs. CHR '','' # joinComma (map quoteJSONString zs) @ ?close"
    show ?thesis
    proof (cases xs)
      case Nil
      note xs_nil = Nil
      show ?thesis
      proof (cases ys')
        case Nil
        with prems ys_cons xs_nil quoteJSONString_prefix_free [of x ?close y ?close]
        show ?thesis by simp
      next
        case (Cons y2 ys2)
        with prems ys_cons xs_nil
          quoteJSONString_prefix_free [of x ?close y "?more (y2 # ys2)"]
        show ?thesis by simp
      qed
    next
      case (Cons x2 xs2)
      note xs_cons = Cons
      show ?thesis
      proof (cases ys')
        case Nil
        with prems ys_cons xs_cons
          quoteJSONString_prefix_free [of x "?more (x2 # xs2)" y ?close]
        show ?thesis by simp
      next
        case (Cons y2 ys2)
        with prems ys_cons xs_cons
          quoteJSONString_prefix_free [of x "?more (x2 # xs2)" y "?more (y2 # ys2)"]
        have "x = y"
          and "joinComma (map quoteJSONString xs) @ ?close
               = joinComma (map quoteJSONString ys') @ ?close"
          by simp_all
        with IH [of ys'] ys_cons show ?thesis by simp
      qed
    qed
  qed
qed

text \<open>
  Two values have the same serialisation only when they are the same value: comparing
  \<open>JSON.stringify\<close> results compares the raw values.
\<close>

lemma JSON_stringify_inj: "JSON_stringify a = JSON_stringify b \<longleftrightarrow> a = b"
proof
  assume eq: "JSON_stringify a = JSON_stringify b"
  show "a = b"
  proof (cases a; cases b)
    fix s t assume "a = JStr s" "b = JStr t"
    with eq quoteJSONString_prefix_free [of s "[]" t "[]"] show ?thesis by simp
  next
    fix s ys assume "a = JStr s" "b = JArr ys"
    with eq show ?thesis by (simp add: quoteJSONString_def)
  next
    fix xs t assume "a = JArr xs" "b = JStr t"
    with eq show ?thesis by (simp add: quoteJSONString_def)
  next
    fix xs ys assume "a = JArr xs" "b = JArr ys"
    with eq joinComma_quoted_inj [of xs ys] show ?thesis by simp
  qed
qed simp


section \<open>The diff of the monitor\<close>

lemma strict_ne_valid: "a \<noteq> NaN \<Longrightarrow> b \<noteq> NaN \<Longrightarrow> strict_ne a b \<longleftrightarrow> a \<noteq> b"
  by (cases a; cases b) auto

lemma hasChanged_tracked:
  "getTime (modified_on c) \<noteq> NaN \<Longrightarrow> getTime (modified_on p) \<noteq> NaN
   \<Longrightarrow> hasChanged getTime c p \<longleftrightarrow> tracked getTime c \<noteq> tracked getTime p"
  by (auto simp: hasChanged_def tracked_def strict_ne_valid JSON_stringify_inj)

lemma find_id_None: "find (\<lambda>h. id_host h = i) hs = None \<longleftrightarrow> i \<notin> id_host ` set hs"
  by (auto simp: find_None_iff)

lemma find_id_Some:
  "distinct (map id_host hs) \<Longrightarrow> p \<in> set hs \<Longrightarrow> find (\<lambda>h. id_host h = id_host p) hs = Some p"
  by (induction hs) (auto simp: image_iff)

lemma find_id_SomeD:
  "find (\<lambda>h. id_host h = i) hs = Some p \<Longrightarrow> p \<in> set hs \<and> id_host p = i"
  by (induction hs) (auto split: if_splits)

lemma distinct_map_filter_id: "distinct (map id_host hs) \<Longrightarrow> distinct (map id_host (filter P hs))"
  by (simp add: distinct_map_filter)

lemma changed_filter_spec:
  assumes "distinct (map id_host H1)" "validDates getTime (H1 @ H2)"
  shows "filter (\<lambda>currentHost.
                 case find (\<lambda>h. id_host h = id_host currentHost) H1 of
                   None \<Rightarrow> True
                 | Some previousHost \<Rightarrow> hasChanged getTime currentHost previousHost) H2
         = spec_changed getTime H1 H2"
  unfolding spec_changed_def
proof (rule filter_cong [OF refl])
  fix c assume c: "c \<in> set H2"
  show "(case find (\<lambda>h. id_host h = id_host c) H1 of None \<Rightarrow> True
         | Some previousHost \<Rightarrow> hasChanged getTime c previousHost)
        = (id_host c \<notin> id_host ` set H1
           \<or> (\<exists>p \<in> set H1. id_host p = id_host c \<and> tracked getTime c \<noteq> tracked getTime p))"
  proof (cases "find (\<lambda>h. id_host h = id_host c) H1")
    case None
    then have "id_host c \<notin> id_host ` set H1" by (simp add: find_id_None)
    with None show ?thesis by simp
  next
    case (Some q)
    from find_id_SomeD [OF Some] have q: "q \<in> set H1" "id_host q = id_host c" by simp_all
    have uniq: "p = q" if "p \<in> set H1" "id_host p = id_host c" for p
      using find_id_Some [OF assms(1) that(1)] that(2) Some by simp
    from assms(2) c q(1) have "getTime (modified_on c) \<noteq> NaN" "getTime (modified_on q) \<noteq> NaN"
      by (simp_all add: validDates_def list_all_iff)
    then have lhs: "hasChanged getTime c q \<longleftrightarrow> tracked getTime c \<noteq> tracked getTime q"
      by (rule hasChanged_tracked)
    have inH1: "id_host c \<in> id_host ` set H1"
      using q by (metis imageI)
    have rhs: "(\<exists>p \<in> set H1. id_host p = id_host c \<and> tracked getTime c \<noteq> tracked getTime p)
               \<longleftrightarrow> tracked getTime c \<noteq> tracked getTime q"
      using q uniq by blast
    show ?thesis
      unfolding Some option.case lhs using inH1 rhs by blast
  qed
qed

lemma deleted_filter_spec:
  "filter (\<lambda>previousHost. \<not> list_ex (\<lambda>h. id_host h = id_host previousHost) H2) H1
   = spec_deleted H1 H2"
  by (auto simp: spec_deleted_def list_ex_iff image_iff intro!: filter_cong)

lemma detectChanges_first:
  "\<not> isInitialized m \<Longrightarrow> detectChanges getTime H2 m
     = (\<lparr>currentHosts = H2, changedHosts = H2, deletedHosts = []\<rparr>,
        m\<lparr>lastKnownHosts := H2, isInitialized := True\<rparr>)"
  by (simp add: detectChanges_def)

lemma detectChanges_later:
  assumes "isInitialized m" "lastKnownHosts m = H1"
    and "distinct (map id_host H1)" and "validDates getTime (H1 @ H2)"
  shows "detectChanges getTime H2 m
            = (\<lparr>currentHosts = H2, changedHosts = spec_changed getTime H1 H2,
                deletedHosts = spec_deleted H1 H2\<rparr>, m\<lparr>lastKnownHosts := H2\<rparr>)"
  unfolding detectChanges_def Let_def assms(2)
    changed_filter_spec [OF assms(3,4)] deleted_filter_spec
  using assms(1) by simp

text \<open>
  Claim C1. On the first call after a (re)start the diff reports every current host as
  changed, none as deleted, and adopts the current list as baseline. On a later call
  against the baseline \<open>H1\<close> with the current list \<open>H2\<close>, the changed hosts are exactly the
  hosts of \<open>H2\<close> whose id is absent from \<open>H1\<close> or whose tuple (modified_on as a time,
  forward_host, forward_port, domain_names) differs from that of the \<open>H1\<close> entry with the
  same id; the deleted hosts are exactly the entries of \<open>H1\<close> whose id is absent from
  \<open>H2\<close>; and no id occurs twice in either part. The host lists are those of the data model:
  ids are unique within a list and every modified_on is a valid time.
\<close>

theorem diff_partition_rule:
  assumes "lastKnownHosts m = H1"
    and "distinct (map id_host H1)" and "distinct (map id_host H2)"
    and "validDates getTime (H1 @ H2)"
  shows "(if \<not> isInitialized m
          then detectChanges getTime H2 m
                 = (\<lparr>currentHosts = H2, changedHosts = H2, deletedHosts = []\<rparr>,
                    m\<lparr>lastKnownHosts := H2, isInitialized := True\<rparr>)
          else detectChanges getTime H2 m
                 = (\<lparr>currentHosts = H2, changedHosts = spec_changed getTime H1 H2,
                     deletedHosts = spec_deleted H1 H2\<rparr>,
                    m\<lparr>lastKnownHosts := H2\<rparr>))
         \<and> distinct (map id_host (changedHosts (fst (detectChanges getTime H2 m))))
         \<and> distinct (map id_host (deletedHosts (fst (detectChanges getTime H2 m))))"
proof (cases "isInitialized m")
  case False
  note eq = detectChanges_first [OF False, of getTime H2]
  have "changedHosts (fst (detectChanges getTime H2 m)) = H2"
    and "deletedHosts (fst (detectChanges getTime H2 m)) = []"
    unfolding eq by simp_all
  with False eq assms(3) show ?thesis by (simp only: if_True simp_thms list.map distinct.simps)
next
  case True
  note eq = detectChanges_later [OF True assms(1,2,4)]
  have c: "changedHosts (fst (detectChanges getTime H2 m)) = spec_changed getTime H1 H2"
    and d: "deletedHosts (fst (detectChanges getTime H2 m)) = spec_deleted H1 H2"
    unfolding eq by simp_all
  have "distinct (map id_host (spec_changed getTime H1 H2))"
    unfolding spec_changed_def using assms(3) by (rule distinct_map_filter_id)
  moreover have "distinct (map id_host (spec_deleted H1 H2))"
    unfolding spec_deleted_def using assms(2) by (rule distinct_map_filter_id)
  ultimately show ?thesis using True eq unfolding c d by (simp only: if_False simp_thms not_True_eq_False)
qed


lemmas example_defs = exampleTime_def hostA_def hostB_def hostC_def monitorA_def

theorem diff_partition_rule_witness:
  "lastKnownHosts monitorA = [hostA, hostB]
   \<and> distinct (map id_host [hostA, hostB])
   \<and> distinct (map id_host [hostA\<lparr>modified_on := ''2024-01-02T00:00:00.000Z''\<rparr>, hostC])
   \<and> validDates exampleTime ([hostA, hostB] @ [hostA\<lparr>modified_on := ''2024-01-02T00:00:00.000Z''\<rparr>, hostC])
   \<and> detectChanges exampleTime [hostA\<lparr>modified_on := ''2024-01-02T00:00:00.000Z''\<rparr>, hostC] monitorA
       = (\<lparr>currentHosts = [hostA\<lparr>modified_on := ''2024-01-02T00:00:00.000Z''\<rparr>, hostC],
           changedHosts = [hostA\<lparr>modified_on := ''2024-01-02T00:00:00.000Z''\<rparr>, hostC],
           deletedHosts = [hostB]\<rparr>,
          monitorA\<lparr>lastKnownHosts := [hostA\<lparr>modified_on := ''2024-01-02T00:00:00.000Z''\<rparr>, hostC]\<rparr>)"
proof -
  let ?H2 = "[hostA\<lparr>modified_on := ''2024-01-02T00:00:00.000Z''\<rparr>, hostC]"
  have a: "lastKnownHosts monitorA = [hostA, hostB]" by (simp add: monitorA_def)
  have b: "distinct (map id_host [hostA, hostB])" by (simp add: example_defs)
  have c: "distinct (map id_host ?H2)" by (simp add: example_defs)
  have d: "validDates exampleTime ([hostA, hostB] @ ?H2)"
    by (simp add: example_defs validDates_def)
  have i: "isInitialized monitorA" by (simp add: monitorA_def)
  have sc: "spec_changed exampleTime [hostA, hostB] ?H2 = ?H2"
    by (simp add: spec_changed_def tracked_def example_defs)
  have sd: "spec_deleted [hostA, hostB] ?H2 = [hostB]"
    by (simp add: spec_deleted_def example_defs)
  from diff_partition_rule [OF a b c d] i sc sd a b c d show ?thesis by simp
qed

text \<open>
  Claim C8, as amended. In the non-bootstrap diff, for a current host whose id exists in
  the previous snapshot and whose other three compared fields are unchanged, the host is
  reported as changed exactly when the raw value of domain_names differs from the previous
  one: the field is compared as received (through its JSON serialisation), without any
  normalisation.
\<close>

theorem domain_names_compared_raw:
  assumes "isInitialized m"
    and "find (\<lambda>h. id_host h = id_host c) (lastKnownHosts m) = Some p"
    and "c \<in> set current"
    and "getTime (modified_on c) = getTime (modified_on p)"
    and "getTime (modified_on p) \<noteq> NaN"
    and "forward_host c = forward_host p"
    and "forward_port c = forward_port p"
  shows "c \<in> set (changedHosts (fst (detectChanges getTime current m)))
         \<longleftrightarrow> domain_names c \<noteq> domain_names p"
proof -
  have "hasChanged getTime c p \<longleftrightarrow> domain_names c \<noteq> domain_names p"
    using assms(4-7) by (simp add: hasChanged_def strict_ne_valid JSON_stringify_inj)
  with assms(1-3) show ?thesis
    by (simp add: detectChanges_def Let_def)
qed

theorem domain_names_compared_raw_witness:
  "isInitialized monitorA
   \<and> find (\<lambda>h. id_host h = id_host hostB_listed) (lastKnownHosts monitorA) = Some hostB
   \<and> hostB_listed \<in> set [hostA, hostB_listed]
   \<and> exampleTime (modified_on hostB_listed) = exampleTime (modified_on hostB)
   \<and> exampleTime (modified_on hostB) \<noteq> NaN
   \<and> forward_host hostB_listed = forward_host hostB
   \<and> forward_port hostB_listed = forward_port hostB
   \<and> domain_names hostB_listed \<noteq> domain_names hostB
   \<and> hostB_listed \<in> set (changedHosts (fst (detectChanges exampleTime [hostA, hostB_listed] monitorA)))"
proof -
  have a: "isInitialized monitorA" by (simp add: monitorA_def)
  have b: "find (\<lambda>h. id_host h = id_host hostB_listed) (lastKnownHosts monitorA) = Some hostB"
    by (simp add: example_defs hostB_listed_def)
  have c: "hostB_listed \<in> set [hostA, hostB_listed]" by simp
  have d: "exampleTime (modified_on hostB_listed) = exampleTime (modified_on hostB)"
    by (simp add: hostB_listed_def)
  have e: "exampleTime (modified_on hostB) \<noteq> NaN" by (simp add: example_defs)
  have f: "forward_host hostB_listed = forward_host hostB" by (simp add: hostB_listed_def)
  have g: "forward_port hostB_listed = forward_port hostB" by (simp add: hostB_listed_def)
  have h: "domain_names hostB_listed \<noteq> domain_names hostB"
    by (simp add: hostB_listed_def hostB_def)
  from domain_names_compared_raw [OF a b c d e f g] a b c d e f g h show ?thesis by simp
qed

text \<open>
  The claim as stated fails: a comma-delimited string and the list of its trimmed parts
  have the same normalised domain list, and the diff reports the host as changed although
  nothing else differs.
\<close>

theorem normalized_domains_counterexample:
  "normalizedDomains (domain_names hostB_listed) = normalizedDomains (domain_names hostB)
   \<and> exampleTime (modified_on hostB_listed) = exampleTime (modified_on hostB)
   \<and> forward_host hostB_listed = forward_host hostB
   \<and> forward_port hostB_listed = forward_port hostB
   \<and> isInitialized monitorA
   \<and> lastKnownHosts monitorA = [hostA, hostB]
   \<and> changedHosts (fst (detectChanges exampleTime [hostA, hostB_listed] monitorA)) = [hostB_listed]"
  by (simp add: example_defs hostB_listed_def normalizedDomains_def domainList_def trim_def
      isWhiteSpace_def detectChanges_def hasChanged_def quoteJSONString_def)


section \<open>What a fetch leaves unchanged\<close>

lemma login_attempts_frame:
  "login_attempts env k m = (b, m1)
   \<Longrightarrow> lastKnownHosts m1 = lastKnownHosts m \<and> isInitialized m1 = isInitialized m"
proof (induction k arbitrary: m)
  case 0
  then show ?case by auto
next
  case (Suc k)
  then show ?case
    by (auto simp: Let_def split: reply.splits if_splits option.splits)
qed

lemma getHeaders_frame:
  "getHeaders env m = (r, m1)
   \<Longrightarrow> lastKnownHosts m1 = lastKnownHosts m \<and> isInitialized m1 = isInitialized m"
  by (auto simp: getHeaders_def login_def split: if_splits prod.splits bool.splits
      dest: login_attempts_frame)

lemma fetch_attempts_frame:
  "fetch_attempts env k m = (x, m1)
   \<Longrightarrow> lastKnownHosts m1 = lastKnownHosts m \<and> isInitialized m1 = isInitialized m"
proof (induction k arbitrary: m)
  case 0
  then show ?case by auto
next
  case (Suc k)
  obtain r m' where h: "getHeaders env m = (r, m')" by (cases "getHeaders env m")
  note f = getHeaders_frame [OF h]
  from Suc.prems h f Suc.IH show ?case
    by (auto simp: Let_def split: sum.splits reply.splits if_splits option.splits)
qed

section \<open>The root domain of a hostname\<close>

lemma endsWith_suffix: "endsWith s t \<longleftrightarrow> suffix t s"
proof
  assume "endsWith s t"
  then have "s = take (length s - length t) s @ t"
    by (metis append_take_drop_id endsWith_def)
  then show "suffix t s" by (metis suffixI)
next
  assume "suffix t s"
  then obtain u where "s = u @ t" by (auto simp: suffix_def)
  then show "endsWith s t" by (simp add: endsWith_def)
qed

lemma best_choice:
  "foldl (betterMatch d) acc zs = acc
   \<or> (foldl (betterMatch d) acc zs \<in> set zs \<and> suffix (foldl (betterMatch d) acc zs) d
      \<and> length acc < length (foldl (betterMatch d) acc zs))"
proof (induction zs arbitrary: acc)
  case Nil
  then show ?case by simp
next
  case (Cons z zs)
  from Cons.IH [of "betterMatch d acc z"] show ?case
    by (auto simp: betterMatch_def endsWith_suffix split: if_splits)
qed

lemma best_grows: "length acc \<le> length (foldl (betterMatch d) acc zs)"
proof (induction zs arbitrary: acc)
  case Nil
  then show ?case by simp
next
  case (Cons z zs)
  have "length acc \<le> length (betterMatch d acc z)" by (simp add: betterMatch_def)
  also have "\<dots> \<le> length (foldl (betterMatch d) (betterMatch d acc z) zs)" by (rule Cons.IH)
  finally show ?case by simp
qed

lemma best_longest:
  "z \<in> set zs \<Longrightarrow> suffix z d \<Longrightarrow> length z \<le> length (foldl (betterMatch d) acc zs)"
proof (induction zs arbitrary: acc)
  case Nil
  then show ?case by simp
next
  case (Cons y zs)
  show ?case
  proof (cases "z = y")
    case True
    with Cons.prems have "length z \<le> length (betterMatch d acc y)"
      by (simp add: betterMatch_def endsWith_suffix)
    also have "\<dots> \<le> length (foldl (betterMatch d) (betterMatch d acc y) zs)" by (rule best_grows)
    finally show ?thesis by simp
  next
    case False
    with Cons.prems Cons.IH [of "betterMatch d acc y"] show ?thesis by simp
  qed
qed

lemma getRootDomain_choice:
  "getRootDomain zones x = [] \<or> (getRootDomain zones x \<in> fst ` set zones \<and> suffix (getRootDomain zones x) x)"
  using best_choice [of x "[]" "map fst zones"] by (auto simp: getRootDomain_def)

lemma getRootDomain_suffix: "suffix (getRootDomain zones x) x"
  using getRootDomain_choice [of zones x] by auto

lemma getRootDomain_longest:
  "z \<in> fst ` set zones \<Longrightarrow> suffix z x \<Longrightarrow> length z \<le> length (getRootDomain zones x)"
  using best_longest [of z "map fst zones" x "[]"] by (simp add: getRootDomain_def)

lemma suffix_same_length: "suffix a b \<Longrightarrow> length b \<le> length a \<Longrightarrow> a = b"
  by (auto simp: suffix_def)

lemma getRootDomain_idem: "getRootDomain zones (getRootDomain zones x) = getRootDomain zones x"
proof -
  let ?r = "getRootDomain zones x" and ?r' = "getRootDomain zones (getRootDomain zones x)"
  have s: "suffix ?r' ?r" by (rule getRootDomain_suffix)
  show ?thesis
  proof (cases "?r = []")
    case True
    with s show ?thesis by simp
  next
    case False
    with getRootDomain_choice [of zones x] have "?r \<in> fst ` set zones" by simp
    then have "length ?r \<le> length ?r'" by (rule getRootDomain_longest) simp
    with s show ?thesis by (rule suffix_same_length)
  qed
qed

text \<open>
  Claim C4. For every hostname and every zone map, \<open>getRootDomain\<close> returns a suffix of
  the hostname that is a zone name of the map or the empty string; no zone name that is
  a suffix of the hostname is longer than it; it is the empty string when no zone name
  matches; and it is idempotent. With the zones \<open>b.com\<close> and \<open>a.b.com\<close>, in either order,
  the hostname \<open>sub.a.b.com\<close> is mapped to \<open>a.b.com\<close>.
\<close>

theorem getRootDomain_longest_suffix:
  "suffix (getRootDomain zones x) x
   \<and> (getRootDomain zones x = [] \<or> getRootDomain zones x \<in> fst ` set zones)
   \<and> (\<forall>z \<in> fst ` set zones. suffix z x \<longrightarrow> length z \<le> length (getRootDomain zones x))
   \<and> ((\<forall>z \<in> fst ` set zones. \<not> suffix z x) \<longrightarrow> getRootDomain zones x = [])
   \<and> getRootDomain zones (getRootDomain zones x) = getRootDomain zones x
   \<and> getRootDomain [(''b.com'', i), (''a.b.com'', j)] ''sub.a.b.com'' = ''a.b.com''
   \<and> getRootDomain [(''a.b.com'', j), (''b.com'', i)] ''sub.a.b.com'' = ''a.b.com''"
proof -
  have ex1: "getRootDomain [(''b.com'', i), (''a.b.com'', j)] ''sub.a.b.com'' = ''a.b.com''"
    by (simp add: getRootDomain_def betterMatch_def endsWith_def)
  have ex2: "getRootDomain [(''a.b.com'', j), (''b.com'', i)] ''sub.a.b.com'' = ''a.b.com''"
    by (simp add: getRootDomain_def betterMatch_def endsWith_def)
  have none: "(\<forall>z \<in> fst ` set zones. \<not> suffix z x) \<longrightarrow> getRootDomain zones x = []"
    using getRootDomain_choice [of zones x] by blast
  have some: "getRootDomain zones x = [] \<or> getRootDomain zones x \<in> fst ` set zones"
    using getRootDomain_choice [of zones x] by blast
  from getRootDomain_suffix [of zones x] some none getRootDomain_idem [of zones x] ex1 ex2
    getRootDomain_longest [of _ zones x]
  show ?thesis by blast
qed

theorem getRootDomain_longest_suffix_witness:
  "''b.com'' \<in> fst ` set zonesAB \<and> suffix ''b.com'' ''sub.a.b.com''
   \<and> length ''b.com'' \<le> length (getRootDomain zonesAB ''sub.a.b.com'')
   \<and> suffix (getRootDomain zonesAB ''sub.a.b.com'') ''sub.a.b.com''
   \<and> getRootDomain zonesAB (getRootDomain zonesAB ''sub.a.b.com'') = getRootDomain zonesAB ''sub.a.b.com''
   \<and> getRootDomain zonesAB ''sub.a.b.com'' = ''a.b.com''"
proof -
  have a: "''b.com'' \<in> fst ` set zonesAB" by (simp add: zonesAB_def)
  have b: "suffix ''b.com'' ''sub.a.b.com''"
    by (simp add: endsWith_suffix [symmetric] endsWith_def)
  have c: "getRootDomain zonesAB ''sub.a.b.com'' = ''a.b.com''"
    by (simp add: getRootDomain_def betterMatch_def zonesAB_def endsWith_def)
  from getRootDomain_longest_suffix [of zonesAB "''sub.a.b.com''"] a b c show ?thesis by blast
qed


section \<open>The request layer: retries, 530 and 429\<close>

lemma run_refl [simp]: "run P s s"
  by (simp add: run_def)

lemma run_trans: "run P s s1 \<Longrightarrow> run P s1 s2 \<Longrightarrow> run P s s2"
  by (fastforce simp: run_def)

lemma run_mono: "run P s s' \<Longrightarrow> (\<And>e. P e \<Longrightarrow> Q e) \<Longrightarrow> run Q s s'"
  by (auto simp: run_def list_all_iff)

lemma run_issued: "run P s s' \<Longrightarrow> requests s' = requests s @ issued s s' \<and> list_all P (issued s s')"
  by (auto simp: run_def issued_def)

lemma issued_append:
  "run P s s1 \<Longrightarrow> run Q s1 s2 \<Longrightarrow> issued s s2 = issued s s1 @ issued s1 s2"
  by (auto simp: run_def issued_def)

lemma run_exchange: "P \<lparr>sent_at = clock s, sent = r\<rparr> \<Longrightarrow> run P s (snd (exchange w r s))"
  by (simp add: exchange_def run_def)

lemma run_sleep: "run P s (sleep d s)"
  by (simp add: sleep_def run_def)

lemma makeRequest_from_done:
  "\<not> attempt < maxRetries \<Longrightarrow> makeRequest_from w result r attempt s = (Inl OtherError, s)"
  by (subst makeRequest_from.simps) simp

text \<open>One turn of the loop, written out; it ends after its exchange, or waits and goes on.\<close>

lemma makeRequest_from_unfold:
  assumes "attempt < maxRetries"
  shows "makeRequest_from w result r attempt s =
     (case outcomeOf w (exchanged s) of
              NetworkError \<Rightarrow>
                (if attempt < maxRetries - 1
                 then makeRequest_from w result r (attempt + 1) (delay attempt (snd (exchange w r s)))
                 else (Inl OtherError, snd (exchange w r s)))
            | Response status retryAfter b \<Rightarrow>
                (if \<not> ok status then
                   (if b = Unreadable then
                      (if attempt < maxRetries - 1
                       then makeRequest_from w result r (attempt + 1) (delay attempt (snd (exchange w r s)))
                       else (Inl OtherError, snd (exchange w r s)))
                    else if status = 530 then (Inl (CloudflareError status), snd (exchange w r s))
                    else if status = 429 then
                      (if attempt < maxRetries - 1
                       then makeRequest_from w result r (attempt + 1)
                              (sleep (rateLimitWait retryAfter) (snd (exchange w r s)))
                       else (Inl (CloudflareError status), snd (exchange w r s)))
                    else if status = 403 then (Inl (CloudflareError status), snd (exchange w r s))
                    else if status \<ge> 500 \<and> attempt < maxRetries - 1
                      then makeRequest_from w result r (attempt + 1) (delay attempt (snd (exchange w r s)))
                    else (Inl (CloudflareError status), snd (exchange w r s)))
                 else
                   (case b of
                      Unreadable \<Rightarrow>
                        (if attempt < maxRetries - 1
                         then makeRequest_from w result r (attempt + 1) (delay attempt (snd (exchange w r s)))
                         else (Inl OtherError, snd (exchange w r s)))
                    | Undecodable \<Rightarrow>
                        (if attempt < maxRetries - 1
                         then makeRequest_from w result r (attempt + 1) (delay attempt (snd (exchange w r s)))
                         else (Inl OtherError, snd (exchange w r s)))
                    | Envelope success \<Rightarrow>
                        (if \<not> success then (Inl (CloudflareError status), snd (exchange w r s))
                         else (Inr (result (exchanged s)), snd (exchange w r s))))))"
proof -
  have ex: "exchange w r s = (exchanged s, snd (exchange w r s))" by (simp add: exchange_def)
  show ?thesis
    by (subst makeRequest_from.simps, subst ex) (simp only: assms if_True prod.case)
qed

lemma makeRequest_from_turn:
  assumes "attempt < maxRetries"
  shows "(\<exists>x. makeRequest_from w result r attempt s = (x, snd (exchange w r s)))
         \<or> (attempt < maxRetries - 1
            \<and> (\<exists>d. makeRequest_from w result r attempt s
                     = makeRequest_from w result r (attempt + 1) (sleep d (snd (exchange w r s)))))"
proof (cases "outcomeOf w (exchanged s)")
  case NetworkError
  then show ?thesis
    unfolding makeRequest_from_unfold [OF assms] delay_def by (simp; blast)
next
  case (Response status retryAfter b)
  then show ?thesis
    unfolding makeRequest_from_unfold [OF assms] delay_def
    by (cases b) (simp_all; blast)+
qed

lemma makeRequest_from_run:
  "run (\<lambda>e. sent e = r) s (snd (makeRequest_from w result r attempt s))"
proof (induction "maxRetries - attempt" arbitrary: attempt s)
  case 0
  then show ?case by (simp add: makeRequest_from_done)
next
  case (Suc n)
  then have lt: "attempt < maxRetries" by simp
  let ?s1 = "snd (exchange w r s)"
  have one: "run (\<lambda>e. sent e = r) s ?s1" by (rule run_exchange) simp
  from makeRequest_from_turn [OF lt, of w result r s] show ?case
  proof (elim disjE exE conjE)
    fix x assume "makeRequest_from w result r attempt s = (x, ?s1)"
    with one show ?thesis by simp
  next
    fix d assume eq: "makeRequest_from w result r attempt s
                      = makeRequest_from w result r (attempt + 1) (sleep d ?s1)"
    have "n = maxRetries - (attempt + 1)" using Suc.hyps(2) by simp
    from Suc.hyps(1) [OF this]
    have "run (\<lambda>e. sent e = r) (sleep d ?s1)
            (snd (makeRequest_from w result r (attempt + 1) (sleep d ?s1)))" .
    with one run_sleep [of "\<lambda>e. sent e = r" ?s1 d] show ?thesis
      unfolding eq by (blast intro: run_trans)
  qed
qed


lemma issued_exchange: "issued s (snd (exchange w r s)) = [\<lparr>sent_at = clock s, sent = r\<rparr>]"
  by (simp add: exchange_def issued_def)

lemma issued_sleep: "issued s (sleep d s) = []"
  by (simp add: sleep_def issued_def)

lemma issued_after_exchange:
  assumes "run P (sleep d (snd (exchange w r s))) s'"
  shows "issued s s' = \<lparr>sent_at = clock s, sent = r\<rparr> # issued (sleep d (snd (exchange w r s))) s'"
proof -
  let ?s1 = "snd (exchange w r s)"
  have a: "run (\<lambda>e. True) s ?s1" by (rule run_exchange) simp
  have b: "run (\<lambda>e. True) ?s1 (sleep d ?s1)" by (rule run_sleep)
  have c: "run (\<lambda>e. True) (sleep d ?s1) s'" using assms by (rule run_mono) simp
  have "issued s s' = issued s (sleep d ?s1) @ issued (sleep d ?s1) s'"
    using run_trans [OF a b] c by (rule issued_append)
  also have "issued s (sleep d ?s1) = issued s ?s1 @ issued ?s1 (sleep d ?s1)"
    using a b by (rule issued_append)
  finally show ?thesis by (simp add: issued_exchange issued_sleep)
qed

lemma makeRequest_from_first:
  assumes "attempt < maxRetries"
  shows "\<exists>rest. issued s (snd (makeRequest_from w result r attempt s))
                 = \<lparr>sent_at = clock s, sent = r\<rparr> # rest"
  using makeRequest_from_turn [OF assms, of w result r s]
proof (elim disjE exE conjE)
  fix x assume "makeRequest_from w result r attempt s = (x, snd (exchange w r s))"
  then show ?thesis by (simp add: issued_exchange)
next
  fix d assume eq: "makeRequest_from w result r attempt s
                    = makeRequest_from w result r (attempt + 1) (sleep d (snd (exchange w r s)))"
  show ?thesis
    unfolding eq
    using issued_after_exchange [OF makeRequest_from_run] by blast
qed

lemma makeRequest_from_530:
  assumes "attempt < maxRetries" "outcomeOf w (exchanged s) = Response 530 ra b"
    and "b \<noteq> Unreadable"
  shows "makeRequest_from w result r attempt s = (Inl (CloudflareError 530), snd (exchange w r s))"
  using assms(2,3) by (simp add: makeRequest_from_unfold [OF assms(1)] ok_def)

lemma makeRequest_from_429_last:
  assumes "attempt < maxRetries" "\<not> attempt < maxRetries - 1"
    and "outcomeOf w (exchanged s) = Response 429 ra b" "b \<noteq> Unreadable"
  shows "makeRequest_from w result r attempt s = (Inl (CloudflareError 429), snd (exchange w r s))"
  using assms(2,3,4) by (simp add: makeRequest_from_unfold [OF assms(1)] ok_def)

lemma makeRequest_from_429_retry:
  assumes "attempt < maxRetries - 1"
    and "outcomeOf w (exchanged s) = Response 429 ra b" "b \<noteq> Unreadable"
  shows "makeRequest_from w result r attempt s
         = makeRequest_from w result r (attempt + 1) (sleep (rateLimitWait ra) (snd (exchange w r s)))"
proof -
  have lt: "attempt < maxRetries" using assms(1) by simp
  show ?thesis
    using assms by (simp add: makeRequest_from_unfold [OF lt] ok_def)
qed

lemma makeRequest_from_unreadable:
  assumes "attempt < maxRetries - 1"
    and "outcomeOf w (exchanged s) = Response status ra Unreadable"
  shows "makeRequest_from w result r attempt s
         = makeRequest_from w result r (attempt + 1) (delay attempt (snd (exchange w r s)))"
proof -
  have lt: "attempt < maxRetries" using assms(1) by simp
  show ?thesis
    using assms by (simp add: makeRequest_from_unfold [OF lt])
qed


section \<open>Numbers and the timer\<close>

lemma bitLength_le: "n < 2 ^ k \<Longrightarrow> bitLength n \<le> k"
proof (induction k arbitrary: n)
  case 0
  then show ?case by (simp add: bitLength.simps)
next
  case (Suc k)
  then have "n div 2 < 2 ^ k" by simp
  from Suc.IH [OF this] show ?case by (subst bitLength.simps) simp
qed

lemma roundDouble_exact:
  assumes "\<bar>n\<bar> < 2 ^ 53"
  shows "roundDouble n = Num n"
proof -
  have "nat \<bar>n\<bar> < 2 ^ 53" using assms by (simp add: nat_less_iff)
  then have b: "bitLength (nat \<bar>n\<bar>) - 53 = 0" using bitLength_le by fastforce
  have "(2::nat) ^ 53 < 2 ^ 1024" by (rule power_strict_increasing) simp_all
  with \<open>nat \<bar>n\<bar> < 2 ^ 53\<close> have c: "\<not> 2 ^ 1024 \<le> nat \<bar>n\<bar>" by simp
  show ?thesis
    unfolding roundDouble_def Let_def b using c by simp
qed

lemma rateLimitWait_exact:
  assumes "h \<noteq> []" "parseInt10 h = Num n" "\<bar>n\<bar> \<le> 2147483647"
  shows "rateLimitWait (Some h) = Num (n * 1000)"
proof -
  have "\<bar>n * 1000\<bar> < 2 ^ 53" using assms(3) by (simp add: abs_mult)
  from roundDouble_exact [OF this] assms(1,2) show ?thesis
    by (simp add: rateLimitWait_def timesInt_def)
qed

lemma timerDelay_in_range:
  "1 \<le> n \<Longrightarrow> n \<le> 2147483647 \<Longrightarrow> timerDelay (Num n) = nat n"
  by (simp add: timerDelay_def TIMEOUT_MAX_def)

lemma timerDelay_zero: "timerDelay (Num 0) = 1"
  by (simp add: timerDelay_def)

lemma timerDelay_beyond: "2147483647 < n \<Longrightarrow> timerDelay (Num n) = 1"
  by (simp add: timerDelay_def TIMEOUT_MAX_def)

lemma parseInt10_digits:
  assumes "ds \<noteq> []" "list_all isDigit ds" "int (foldl (\<lambda>a c. 10 * a + digitVal c) 0 ds) < 2 ^ 53"
  shows "parseInt10 ds = Num (int (foldl (\<lambda>a c. 10 * a + digitVal c) 0 ds))"
proof -
  obtain c r where ds: "ds = c # r" using assms(1) by (cases ds) auto
  have d: "isDigit c" using assms(2) ds by simp
  then have nw: "\<not> isWhiteSpace c" and ns: "c \<noteq> CHR ''-''" "c \<noteq> CHR ''+''"
    by (auto simp: isDigit_def isWhiteSpace_def)
  have t: "takeWhile isDigit ds = ds" using assms(2) by (simp add: list_all_iff)
  have "roundDouble (int (foldl (\<lambda>a c. 10 * a + digitVal c) 0 ds))
        = Num (int (foldl (\<lambda>a c. 10 * a + digitVal c) 0 ds))"
    using assms(3) by (intro roundDouble_exact) simp
  then show ?thesis
    using nw ns t assms(1) unfolding parseInt10_def ds by (simp add: Let_def)
qed

section \<open>Status 530 and status 429\<close>

text \<open>
  At any attempt of \<open>makeRequest\<close> (the loop from attempt number \<open>attempt\<close> on;
  \<open>makeRequest\<close> starts it at 0): a response with status 530 whose body has been read
  ends the call at once with that error, after this one exchange and whatever attempts
  are left. A response with status 429 and a non-empty \<open>Retry-After\<close> header that
  reads as \<open>n\<close> seconds, \<open>n\<close> at most 2147483, is followed, when an attempt is left, by
  the next attempt, sent \<open>n * 1000\<close> milliseconds after the response arrived (1
  millisecond when \<open>n = 0\<close>; the response arrives \<open>latency\<close> after the request was sent);
  on the last attempt the call fails with the 429 error instead: the retry counts
  against the three attempts.
\<close>

lemma request_layer_530_and_429:
  assumes "attempt < maxRetries"
  shows "(outcomeOf w (exchanged s) = Response 530 ra b \<and> b \<noteq> Unreadable \<longrightarrow>
            makeRequest_from w result r attempt s
              = (Inl (CloudflareError 530), snd (exchange w r s)))
         \<and> (outcomeOf w (exchanged s) = Response 429 (Some h) b' \<and> b' \<noteq> Unreadable \<and> h \<noteq> []
              \<and> parseInt10 h = Num (int n) \<and> n \<le> 2147483 \<longrightarrow>
            (if attempt < maxRetries - 1 then
               (\<exists>rest. issued s (snd (makeRequest_from w result r attempt s))
                   = \<lparr>sent_at = clock s, sent = r\<rparr>
                     # \<lparr>sent_at = clock s + latency w (exchanged s) + max 1 (n * 1000), sent = r\<rparr>
                     # rest)
             else makeRequest_from w result r attempt s
                    = (Inl (CloudflareError 429), snd (exchange w r s))))
         \<and> makeRequest w result r s = makeRequest_from w result r 0 s"
proof (intro conjI impI)
  assume "outcomeOf w (exchanged s) = Response 530 ra b \<and> b \<noteq> Unreadable"
  with assms show "makeRequest_from w result r attempt s
                   = (Inl (CloudflareError 530), snd (exchange w r s))"
    by (intro makeRequest_from_530) auto
next
  show "makeRequest w result r s = makeRequest_from w result r 0 s"
    by (simp add: makeRequest_def)
next
  assume a: "outcomeOf w (exchanged s) = Response 429 (Some h) b' \<and> b' \<noteq> Unreadable \<and> h \<noteq> []
             \<and> parseInt10 h = Num (int n) \<and> n \<le> 2147483"
  let ?s1 = "snd (exchange w r s)"
  let ?s2 = "sleep (rateLimitWait (Some h)) ?s1"
  show "if attempt < maxRetries - 1 then
          (\<exists>rest. issued s (snd (makeRequest_from w result r attempt s))
              = \<lparr>sent_at = clock s, sent = r\<rparr>
                # \<lparr>sent_at = clock s + latency w (exchanged s) + max 1 (n * 1000), sent = r\<rparr>
                # rest)
        else makeRequest_from w result r attempt s
               = (Inl (CloudflareError 429), snd (exchange w r s))"
  proof (cases "attempt < maxRetries - 1")
    case False
    with assms a show ?thesis by (simp add: makeRequest_from_429_last)
  next
    case True
    have eq: "makeRequest_from w result r attempt s
              = makeRequest_from w result r (attempt + 1) ?s2"
      using True a by (intro makeRequest_from_429_retry) auto
    have w: "rateLimitWait (Some h) = Num (int n * 1000)"
      using a by (intro rateLimitWait_exact) auto
    have t: "timerDelay (Num (int n * 1000)) = max 1 (n * 1000)"
    proof (cases "n = 0")
      case True
      then show ?thesis by (simp add: timerDelay_zero)
    next
      case False
      then have "timerDelay (Num (int n * 1000)) = nat (int n * 1000)"
        using a by (intro timerDelay_in_range) auto
      with False show ?thesis by (simp add: nat_mult_distrib)
    qed
    have c2: "clock ?s2 = clock s + latency w (exchanged s) + max 1 (n * 1000)"
      by (simp add: w t sleep_def exchange_def)
    have "attempt + 1 < maxRetries" using True by simp
    from makeRequest_from_first [OF this, of ?s2 w result r]
    obtain rest where "issued ?s2 (snd (makeRequest_from w result r (attempt + 1) ?s2))
                       = \<lparr>sent_at = clock ?s2, sent = r\<rparr> # rest" by blast
    moreover have "run (\<lambda>e. sent e = r) ?s2 (snd (makeRequest_from w result r (attempt + 1) ?s2))"
      by (rule makeRequest_from_run)
    note issued_after_exchange [OF this]
    ultimately have "issued s (snd (makeRequest_from w result r attempt s))
          = \<lparr>sent_at = clock s, sent = r\<rparr> # \<lparr>sent_at = clock ?s2, sent = r\<rparr> # rest"
      unfolding eq by simp
    with True c2 show ?thesis by simp
  qed
qed

lemma parseInt10_two: "parseInt10 ''2'' = Num 2"
  by (simp add: parseInt10_def roundDouble_exact isWhiteSpace_def isDigit_def digitVal_def)

text \<open>
  A run of it: the first response is a 429 with \<open>Retry-After: 2\<close>, which arrives at
  1050; the second attempt is sent at 3050 and gets a 530, which ends the call although
  a third attempt is left.
\<close>

lemma request_layer_530_and_429_example:
  "take 2 (issued startState (snd (makeRequest rateLimitedWorld (zonesAt rateLimitedWorld) zonesRequest startState)))
       = [\<lparr>sent_at = 1000, sent = zonesRequest\<rparr>, \<lparr>sent_at = 3050, sent = zonesRequest\<rparr>]
   \<and> makeRequest rateLimitedWorld (zonesAt rateLimitedWorld) zonesRequest startState
       = (Inl (CloudflareError 530),
          \<lparr>clock = 3100, exchanged = 2,
           requests = [\<lparr>sent_at = 1000, sent = zonesRequest\<rparr>, \<lparr>sent_at = 3050, sent = zonesRequest\<rparr>],
           cachedIP = None, lastCheck = 0\<rparr>)"
proof -
  let ?W = rateLimitedWorld and ?s = startState
  have a: "(0::nat) < maxRetries" by (simp add: maxRetries_def)
  have b: "outcomeOf ?W (exchanged ?s) = Response 429 (Some ''2'') Undecodable"
    by (simp add: rateLimitedWorld_def startState_def)
  have c: "parseInt10 ''2'' = Num (int 2)" using parseInt10_two by simp
  have d: "0 < maxRetries - 1" by (simp add: maxRetries_def)
  from request_layer_530_and_429 [OF a, of ?W ?s _ _ "zonesAt ?W" zonesRequest "''2''" Undecodable 2]
    b c d
  obtain rest where
    "issued ?s (snd (makeRequest ?W (zonesAt ?W) zonesRequest ?s))
       = \<lparr>sent_at = clock ?s, sent = zonesRequest\<rparr>
         # \<lparr>sent_at = clock ?s + latency ?W (exchanged ?s) + max 1 (2 * 1000), sent = zonesRequest\<rparr> # rest"
    by auto
  then have e: "take 2 (issued ?s (snd (makeRequest ?W (zonesAt ?W) zonesRequest ?s)))
       = [\<lparr>sent_at = 1000, sent = zonesRequest\<rparr>, \<lparr>sent_at = 3050, sent = zonesRequest\<rparr>]"
    by (simp add: startState_def rateLimitedWorld_def)
  let ?s2 = "sleep (rateLimitWait (Some ''2'')) (snd (exchange ?W zonesRequest ?s))"
  have rw: "rateLimitWait (Some ''2'') = Num 2000"
    using rateLimitWait_exact [of "''2''" 2] parseInt10_two by simp
  have s2: "?s2 = \<lparr>clock = 3050, exchanged = 1,
                    requests = [\<lparr>sent_at = 1000, sent = zonesRequest\<rparr>],
                    cachedIP = None, lastCheck = 0\<rparr>"
    by (simp add: sleep_def rw timerDelay_in_range exchange_def startState_def
        rateLimitedWorld_def)
  have f: "makeRequest ?W (zonesAt ?W) zonesRequest ?s
           = makeRequest_from ?W (zonesAt ?W) zonesRequest (0 + 1) ?s2"
    unfolding makeRequest_def using d b by (rule makeRequest_from_429_retry) simp
  have g: "makeRequest_from ?W (zonesAt ?W) zonesRequest (0 + 1) ?s2
           = (Inl (CloudflareError 530), snd (exchange ?W zonesRequest ?s2))"
  proof (rule makeRequest_from_530)
    show "0 + 1 < maxRetries" by (simp add: maxRetries_def)
    show "outcomeOf ?W (exchanged ?s2) = Response 530 None Undecodable"
      unfolding s2 by (simp add: rateLimitedWorld_def)
    show "Undecodable \<noteq> Unreadable" by simp
  qed
  have h: "snd (exchange ?W zonesRequest ?s2)
           = \<lparr>clock = 3100, exchanged = 2,
              requests = [\<lparr>sent_at = 1000, sent = zonesRequest\<rparr>, \<lparr>sent_at = 3050, sent = zonesRequest\<rparr>],
              cachedIP = None, lastCheck = 0\<rparr>"
    unfolding s2 by (simp add: exchange_def rateLimitedWorld_def)
  from e f g h show ?thesis by simp
qed

lemma parseInt10_long: "parseInt10 ''2147484'' = Num 2147484"
  by (simp add: parseInt10_def roundDouble_exact isWhiteSpace_def isDigit_def digitVal_def)

text \<open>
  Claim C5 does not hold for every \<open>Retry-After\<close>. In the world \<open>longRetryAfter\<close> the
  first response, which arrives at 1050, has status 429 and \<open>Retry-After: 2147484\<close>.
  The wait computed from it is 2147484000 ms, more than the timer takes, so the timer
  is set to 1 ms: the second attempt is sent at 1051, not 2147484 seconds after 1050.
  (That attempt gets a 530, and the call ends there with a third attempt left.)
\<close>

theorem retry_after_beyond_timer_range:
  "outcomeOf longRetryAfter (exchanged startState) = Response 429 (Some ''2147484'') Undecodable
   \<and> parseInt10 ''2147484'' = Num 2147484
   \<and> rateLimitWait (Some ''2147484'') = Num 2147484000
   \<and> timerDelay (Num 2147484000) = 1
   \<and> makeRequest longRetryAfter (zonesAt longRetryAfter) zonesRequest startState
       = (Inl (CloudflareError 530),
          \<lparr>clock = 1101, exchanged = 2,
           requests = [\<lparr>sent_at = 1000, sent = zonesRequest\<rparr>, \<lparr>sent_at = 1051, sent = zonesRequest\<rparr>],
           cachedIP = None, lastCheck = 0\<rparr>)"
proof -
  let ?W = longRetryAfter and ?s = startState
  have b: "outcomeOf ?W (exchanged ?s) = Response 429 (Some ''2147484'') Undecodable"
    by (simp add: longRetryAfter_def startState_def)
  have d: "0 < maxRetries - 1" by (simp add: maxRetries_def)
  have rw: "rateLimitWait (Some ''2147484'') = Num 2147484000"
    using rateLimitWait_exact [of "''2147484''" 2147484] parseInt10_long by simp
  have td: "timerDelay (Num 2147484000) = 1"
    by (rule timerDelay_beyond) simp
  let ?s2 = "sleep (rateLimitWait (Some ''2147484'')) (snd (exchange ?W zonesRequest ?s))"
  have s2: "?s2 = \<lparr>clock = 1051, exchanged = 1,
                    requests = [\<lparr>sent_at = 1000, sent = zonesRequest\<rparr>],
                    cachedIP = None, lastCheck = 0\<rparr>"
    by (simp add: sleep_def rw td exchange_def startState_def longRetryAfter_def)
  have f: "makeRequest ?W (zonesAt ?W) zonesRequest ?s
           = makeRequest_from ?W (zonesAt ?W) zonesRequest (0 + 1) ?s2"
    unfolding makeRequest_def using d b by (rule makeRequest_from_429_retry) simp
  have g: "makeRequest_from ?W (zonesAt ?W) zonesRequest (0 + 1) ?s2
           = (Inl (CloudflareError 530), snd (exchange ?W zonesRequest ?s2))"
  proof (rule makeRequest_from_530)
    show "0 + 1 < maxRetries" by (simp add: maxRetries_def)
    show "outcomeOf ?W (exchanged ?s2) = Response 530 None Undecodable"
      unfolding s2 by (simp add: longRetryAfter_def)
    show "Undecodable \<noteq> Unreadable" by simp
  qed
  have h: "snd (exchange ?W zonesRequest ?s2)
           = \<lparr>clock = 1101, exchanged = 2,
              requests = [\<lparr>sent_at = 1000, sent = zonesRequest\<rparr>, \<lparr>sent_at = 1051, sent = zonesRequest\<rparr>],
              cachedIP = None, lastCheck = 0\<rparr>"
    unfolding s2 by (simp add: exchange_def longRetryAfter_def)
  from b parseInt10_long rw td f g h show ?thesis by simp
qed

section \<open>The public IP resolver\<close>

lemma askService_frame:
  "askService w svc s = (r, s') \<Longrightarrow>
     r = validated (extract_svc svc) (ipAt w (exchanged s))
     \<and> exchanged s' = exchanged s + 1 \<and> cachedIP s' = cachedIP s \<and> lastCheck s' = lastCheck s
     \<and> run (\<lambda>e. method_req (sent e) = GET) s s'"
  by (auto simp: askService_def exchange_def run_def)

lemma sleep_frame:
  "exchanged (sleep d s) = exchanged s" "cachedIP (sleep d s) = cachedIP s"
  "lastCheck (sleep d s) = lastCheck s"
  by (simp_all add: sleep_def)

lemma tryService_spec:
  "tryService w svc k s = (r, s') \<Longrightarrow>
     cachedIP s' = cachedIP s \<and> lastCheck s' = lastCheck s
     \<and> run (\<lambda>e. method_req (sent e) = GET) s s'
     \<and> (case r of
          None \<Rightarrow> (\<forall>n<k. validated (extract_svc svc) (ipAt w (exchanged s + n)) = None)
                  \<and> exchanged s' = exchanged s + k
        | Some ip \<Rightarrow> (\<exists>n<k. validated (extract_svc svc) (ipAt w (exchanged s + n)) = Some ip
                      \<and> (\<forall>m<n. validated (extract_svc svc) (ipAt w (exchanged s + m)) = None)))"
proof (induction k arbitrary: s)
  case 0
  then show ?case by auto
next
  case (Suc k)
  obtain a s1 where ask: "askService w svc s = (a, s1)" by (cases "askService w svc s")
  note fr = askService_frame [OF ask]
  show ?case
  proof (cases a)
    case (Some ip)
    with Suc.prems ask have res: "r = Some ip" "s' = s1" by simp_all
    from fr Some have "validated (extract_svc svc) (ipAt w (exchanged s + 0)) = Some ip" by simp
    then have "\<exists>n<Suc k. validated (extract_svc svc) (ipAt w (exchanged s + n)) = Some ip
                  \<and> (\<forall>m<n. validated (extract_svc svc) (ipAt w (exchanged s + m)) = None)"
      by (intro exI [of _ 0]) simp
    with res fr show ?thesis by simp
  next
    case None
    let ?s2 = "if 0 < k then sleep (Num RETRY_DELAY) s1 else s1"
    from Suc.prems ask None have rec: "tryService w svc k ?s2 = (r, s')" by simp
    have s2: "exchanged ?s2 = exchanged s + 1" "cachedIP ?s2 = cachedIP s"
      "lastCheck ?s2 = lastCheck s" "run (\<lambda>e. method_req (sent e) = GET) s1 ?s2"
      using fr by (simp_all add: sleep_frame run_sleep)
    note IH = Suc.IH [OF rec, unfolded s2(1,2,3)]
    have first: "validated (extract_svc svc) (ipAt w (exchanged s)) = None"
      using fr None by simp
    have r: "run (\<lambda>e. method_req (sent e) = GET) s s'"
      using fr s2(4) IH by (blast intro: run_trans)
    show ?thesis
    proof (cases r)
      case None
      with IH s2 have rest: "\<forall>n<k. validated (extract_svc svc) (ipAt w (exchanged s + 1 + n)) = None"
        and e: "exchanged s' = exchanged s + Suc k" by simp_all
      have "validated (extract_svc svc) (ipAt w (exchanged s + n)) = None" if "n < Suc k" for n
      proof (cases n)
        case 0
        with first show ?thesis by simp
      next
        case (Suc j)
        with that rest show ?thesis by simp
      qed
      with None IH s2 e r show ?thesis by simp
    next
      case (Some ip)
      with IH s2 obtain n where n: "n < k"
        "validated (extract_svc svc) (ipAt w (exchanged s + 1 + n)) = Some ip"
        "\<forall>m<n. validated (extract_svc svc) (ipAt w (exchanged s + 1 + m)) = None"
        by auto
      have "validated (extract_svc svc) (ipAt w (exchanged s + m)) = None" if "m < Suc n" for m
      proof (cases m)
        case 0
        with first show ?thesis by simp
      next
        case (Suc j)
        with that n(3) show ?thesis by simp
      qed
      with n(1,2) have "\<exists>n'<Suc k. validated (extract_svc svc) (ipAt w (exchanged s + n')) = Some ip
                      \<and> (\<forall>m<n'. validated (extract_svc svc) (ipAt w (exchanged s + m)) = None)"
        by (intro exI [of _ "Suc n"]) simp
      with Some IH s2 r show ?thesis by simp
    qed
  qed
qed


lemma answer_head:
  "n < MAX_RETRIES \<Longrightarrow>
     answer w (svc # rest) base n = validated (extract_svc svc) (ipAt w (base + n))"
  by (simp add: answer_def)

lemma answer_tail:
  "answer w (svc # rest) base (MAX_RETRIES + n) = answer w rest (base + MAX_RETRIES) n"
proof -
  have "(MAX_RETRIES + n) div MAX_RETRIES = Suc (n div MAX_RETRIES)"
    by (simp add: MAX_RETRIES_def)
  then show ?thesis by (simp add: answer_def add.assoc)
qed

lemma answers_none_cons:
  assumes "\<forall>n<MAX_RETRIES. validated (extract_svc svc) (ipAt w (base + n)) = None"
    and "\<forall>n<j. answer w rest (base + MAX_RETRIES) n = None"
    and "m < MAX_RETRIES + j"
  shows "answer w (svc # rest) base m = None"
proof (cases "m < MAX_RETRIES")
  case True
  with assms(1) show ?thesis by (simp add: answer_head)
next
  case False
  then obtain i where m: "m = MAX_RETRIES + i" by (metis le_Suc_ex not_less)
  with assms(3) have "i < j" by simp
  with assms(2) m show ?thesis by (simp add: answer_tail)
qed

lemma tryServices_spec:
  "tryServices w svcs s = (r, s') \<Longrightarrow>
     cachedIP s' = cachedIP s \<and> lastCheck s' = lastCheck s
     \<and> run (\<lambda>e. method_req (sent e) = GET) s s'
     \<and> (case r of
          None \<Rightarrow> (\<forall>n < MAX_RETRIES * length svcs. answer w svcs (exchanged s) n = None)
        | Some ip \<Rightarrow> (\<exists>n < MAX_RETRIES * length svcs. answer w svcs (exchanged s) n = Some ip
                      \<and> (\<forall>m<n. answer w svcs (exchanged s) m = None)))"
proof (induction svcs arbitrary: s)
  case Nil
  then show ?case by auto
next
  case (Cons svc rest)
  let ?base = "exchanged s"
  obtain a s1 where t: "tryService w svc MAX_RETRIES s = (a, s1)"
    by (cases "tryService w svc MAX_RETRIES s")
  note ts = tryService_spec [OF t]
  show ?case
  proof (cases a)
    case (Some ip)
    with Cons.prems t have res: "r = Some ip" "s' = s1" by simp_all
    from ts Some obtain n where n: "n < MAX_RETRIES"
      "validated (extract_svc svc) (ipAt w (?base + n)) = Some ip"
      "\<forall>m<n. validated (extract_svc svc) (ipAt w (?base + m)) = None" by auto
    have "answer w (svc # rest) ?base n = Some ip" using n(1,2) by (simp add: answer_head)
    moreover have "\<forall>m<n. answer w (svc # rest) ?base m = None"
      using n(1,3) by (simp add: answer_head)
    moreover have "n < MAX_RETRIES * length (svc # rest)" using n(1) by simp
    ultimately have "\<exists>n < MAX_RETRIES * length (svc # rest).
        answer w (svc # rest) ?base n = Some ip \<and> (\<forall>m<n. answer w (svc # rest) ?base m = None)"
      by blast
    with res ts show ?thesis by simp
  next
    case None
    with Cons.prems t have rec: "tryServices w rest s1 = (r, s')" by simp
    from ts None have h: "\<forall>n<MAX_RETRIES. validated (extract_svc svc) (ipAt w (?base + n)) = None"
      and e: "exchanged s1 = ?base + MAX_RETRIES" by simp_all
    note IH = Cons.IH [OF rec, unfolded e]
    have fr: "cachedIP s' = cachedIP s \<and> lastCheck s' = lastCheck s
              \<and> run (\<lambda>e. method_req (sent e) = GET) s s'"
      using ts IH by (auto intro: run_trans)
    show ?thesis
    proof (cases r)
      case None
      with IH have "\<forall>n < MAX_RETRIES * length rest. answer w rest (?base + MAX_RETRIES) n = None"
        by simp
      with h have "\<forall>m < MAX_RETRIES * length (svc # rest). answer w (svc # rest) ?base m = None"
        by (auto intro: answers_none_cons)
      with None fr show ?thesis by simp
    next
      case (Some ip)
      with IH obtain n where n: "n < MAX_RETRIES * length rest"
        "answer w rest (?base + MAX_RETRIES) n = Some ip"
        "\<forall>m<n. answer w rest (?base + MAX_RETRIES) m = None" by auto
      have "answer w (svc # rest) ?base (MAX_RETRIES + n) = Some ip"
        using n(2) by (simp add: answer_tail)
      moreover have "\<forall>m < MAX_RETRIES + n. answer w (svc # rest) ?base m = None"
        using h n(3) by (auto intro: answers_none_cons)
      moreover have "MAX_RETRIES + n < MAX_RETRIES * length (svc # rest)" using n(1) by simp
      ultimately have "\<exists>n < MAX_RETRIES * length (svc # rest).
          answer w (svc # rest) ?base n = Some ip \<and> (\<forall>m<n. answer w (svc # rest) ?base m = None)"
        by blast
      with Some fr show ?thesis by simp
    qed
  qed
qed


lemma validated_Some:
  "validated how (IPResponse status (Some data)) = Some v
   \<longleftrightarrow> ok status \<and> extract_ip how data = Some v \<and> v \<noteq> [] \<and> matchesIPv4 v"
  by (auto simp: validated_def split: option.splits)

lemma validated_matches: "validated how out = Some v \<Longrightarrow> v \<noteq> [] \<and> matchesIPv4 v"
  by (auto simp: validated_def split: ip_outcome.splits option.splits if_splits)

lemma all_answers_list:
  "list_all (\<lambda>n. answer w svcs base n = None) [0..<k] \<longleftrightarrow> (\<forall>n<k. answer w svcs base n = None)"
  by (auto simp: list_all_iff)

lemma fresh_truthy: "fresh s \<Longrightarrow> \<exists>ip. cachedIP s = Some ip \<and> ip \<noteq> []"
  by (auto simp: fresh_def truthy_def split: option.splits)

text \<open>
  Claim C6. When every attempt at every provider fails, \<open>getPublicIP\<close> returns the
  cached value, whatever its age, and leaves the cache as it is; it fails only with an
  empty cache. Conversely the call never fails unless the cache is empty and every
  attempt failed.
\<close>

theorem all_providers_fail:
  "(list_all (\<lambda>n. answer w services (exchanged s) n = None) [0..<MAX_RETRIES * length services]
      \<longrightarrow> fst (getPublicIP w s)
            = (case cachedIP s of
                 None \<Rightarrow> Inl NoPublicIP
               | Some ip \<Rightarrow> if ip = [] then Inl NoPublicIP else Inr ip)
          \<and> cachedIP (snd (getPublicIP w s)) = cachedIP s
          \<and> lastCheck (snd (getPublicIP w s)) = lastCheck s)
   \<and> (fst (getPublicIP w s) = Inl e \<longrightarrow>
         e = NoPublicIP \<and> (cachedIP s = None \<or> cachedIP s = Some [])
         \<and> list_all (\<lambda>n. answer w services (exchanged s) n = None)
              [0..<MAX_RETRIES * length services])"
proof (cases "fresh s")
  case True
  with fresh_truthy [OF True] show ?thesis
    by (auto simp: getPublicIP_def)
next
  case False
  obtain r s1 where t: "tryServices w services s = (r, s1)"
    by (cases "tryServices w services s")
  note sp = tryServices_spec [OF t]
  show ?thesis
  proof (cases r)
    case None
    with sp have "\<forall>n < MAX_RETRIES * length services. answer w services (exchanged s) n = None"
      by simp
    then have all: "list_all (\<lambda>n. answer w services (exchanged s) n = None)
                      [0..<MAX_RETRIES * length services]"
      by (simp add: all_answers_list)
    from False t None sp have
      "getPublicIP w s = (case cachedIP s of
                 None \<Rightarrow> (Inl NoPublicIP, s1)
               | Some ip \<Rightarrow> if ip \<noteq> [] then (Inr ip, s1) else (Inl NoPublicIP, s1))"
      by (simp add: getPublicIP_def)
    with all sp show ?thesis
      by (auto split: option.splits if_splits)
  next
    case (Some ip)
    with sp obtain n where "n < MAX_RETRIES * length services"
      "answer w services (exchanged s) n = Some ip" by auto
    then have no: "\<not> list_all (\<lambda>n. answer w services (exchanged s) n = None)
                      [0..<MAX_RETRIES * length services]"
      by (auto simp: all_answers_list)
    from False t Some have "fst (getPublicIP w s) = Inr ip"
      by (simp add: getPublicIP_def)
    with no show ?thesis by simp
  qed
qed

text \<open>
  Claim C7, as amended. A value a provider gives is accepted only if it is not empty and
  is four groups of one to three decimal digits separated by dots (the value of a group
  is not checked); every other value is a failure of that attempt. When the cache is not
  fresh, \<open>getPublicIP\<close> returns the first accepted value in the order of the attempts
  (the providers in order, three attempts each), and caches it with the time of the call.
\<close>

theorem first_matching_address:
  assumes "\<not> fresh s"
    and "n < MAX_RETRIES * length services"
    and "answer w services (exchanged s) n = Some ip"
    and "list_all (\<lambda>m. answer w services (exchanged s) m = None) [0..<n]"
  shows "fst (getPublicIP w s) = Inr ip
         \<and> cachedIP (snd (getPublicIP w s)) = Some ip
         \<and> lastCheck (snd (getPublicIP w s)) = clock s
         \<and> ip \<noteq> [] \<and> matchesIPv4 ip
         \<and> (validated how (IPResponse status (Some data)) = Some v
             \<longleftrightarrow> ok status \<and> extract_ip how data = Some v \<and> v \<noteq> [] \<and> matchesIPv4 v)"
proof -
  obtain r s1 where t: "tryServices w services s = (r, s1)"
    by (cases "tryServices w services s")
  note sp = tryServices_spec [OF t]
  from assms(4) have before: "\<forall>m<n. answer w services (exchanged s) m = None"
    by (simp add: all_answers_list)
  have r: "r = Some ip"
  proof (cases r)
    case None
    with sp assms(2,3) show ?thesis by auto
  next
    case (Some ip')
    with sp obtain n' where n': "answer w services (exchanged s) n' = Some ip'"
      "\<forall>m<n'. answer w services (exchanged s) m = None" by auto
    have "n' = n"
    proof (rule ccontr)
      assume "n' \<noteq> n"
      then consider "n' < n" | "n < n'" by linarith
      then show False
      proof cases
        case 1
        with before n'(1) show False by simp
      next
        case 2
        with n'(2) assms(3) show False by simp
      qed
    qed
    with n'(1) assms(3) Some show ?thesis by simp
  qed
  have "getPublicIP w s = (Inr ip, s1\<lparr>cachedIP := Some ip, lastCheck := clock s\<rparr>)"
    using assms(1) t r by (simp add: getPublicIP_def)
  moreover have "ip \<noteq> [] \<and> matchesIPv4 ip"
    using assms(3) unfolding answer_def by (rule validated_matches)
  ultimately show ?thesis by (simp add: validated_Some)
qed


lemmas ip_eval = answer_def services_def MAX_RETRIES_def validated_def ok_def matchesIPv4_def
  digitGroup_def isDigit_def

theorem all_providers_fail_witness:
  "list_all (\<lambda>n. answer providersDown services (exchanged staleState) n = None)
      [0..<MAX_RETRIES * length services]
   \<and> \<not> fresh staleState
   \<and> fst (getPublicIP providersDown staleState) = Inr ''203.0.113.7''
   \<and> cachedIP (snd (getPublicIP providersDown staleState)) = Some ''203.0.113.7''
   \<and> lastCheck (snd (getPublicIP providersDown staleState)) = 1700000000000
   \<and> list_all (\<lambda>n. answer providersDown services (exchanged startState) n = None)
      [0..<MAX_RETRIES * length services]
   \<and> fst (getPublicIP providersDown startState) = Inl NoPublicIP"
proof -
  have a: "list_all (\<lambda>n. answer providersDown services b n = None)
             [0..<MAX_RETRIES * length services]" for b
    by (simp add: list_all_iff answer_def validated_def providersDown_def ok_def)
  have b: "\<not> fresh staleState"
    by (simp add: fresh_def staleState_def CACHE_DURATION_def)
  from all_providers_fail [of providersDown staleState]
    all_providers_fail [of providersDown startState] a b
  show ?thesis by (simp add: staleState_def startState_def)
qed

theorem first_matching_address_witness:
  "\<not> fresh staleState
   \<and> (3::nat) < MAX_RETRIES * length services
   \<and> answer secondProviderAnswers services (exchanged staleState) 3 = Some ''198.51.100.24''
   \<and> list_all (\<lambda>m. answer secondProviderAnswers services (exchanged staleState) m = None) [0..<3]
   \<and> fst (getPublicIP secondProviderAnswers staleState) = Inr ''198.51.100.24''
   \<and> cachedIP (snd (getPublicIP secondProviderAnswers staleState)) = Some ''198.51.100.24''
   \<and> lastCheck (snd (getPublicIP secondProviderAnswers staleState)) = 1700000900000"
proof -
  have a: "\<not> fresh staleState"
    by (simp add: fresh_def staleState_def CACHE_DURATION_def)
  have b: "(3::nat) < MAX_RETRIES * length services"
    by (simp add: MAX_RETRIES_def services_def)
  have c: "answer secondProviderAnswers services (exchanged staleState) 3 = Some ''198.51.100.24''"
    by (simp add: ip_eval secondProviderAnswers_def staleState_def)
  have u: "[0..<3] = [0, 1, 2::nat]" by (simp add: upt_rec)
  have d: "list_all (\<lambda>m. answer secondProviderAnswers services (exchanged staleState) m = None) [0..<3]"
    unfolding u by (simp add: ip_eval secondProviderAnswers_def staleState_def)
  from first_matching_address [OF a b c d] a b c d show ?thesis
    by (simp add: staleState_def)
qed

text \<open>
  The claim as stated fails: a value with octets out of range is taken as a success,
  cached and returned.
\<close>

theorem out_of_range_octet_counterexample:
  "parseInt10 ''999'' = Num 999
   \<and> cachedIP startState = None
   \<and> getPublicIP outOfRangeWorld startState
       = (Inr ''999.999.999.999'',
          \<lparr>clock = 1050, exchanged = 1,
           requests = [\<lparr>sent_at = 1000,
                        sent = \<lparr>method_req = GET, url_req = ''https://api64.ipify.org?format=json'',
                                body_req = NoBody\<rparr>\<rparr>],
           cachedIP = Some ''999.999.999.999'', lastCheck = 1000\<rparr>)"
  by (simp add: parseInt10_def roundDouble_exact isWhiteSpace_def digitVal_def getPublicIP_def
      fresh_def truthy_def startState_def outOfRangeWorld_def askService_def exchange_def eval_nat_numeral ip_eval)


section \<open>What the client and the orchestrator send\<close>

lemma makeRequest_run: "run (\<lambda>e. sent e = r) s (snd (makeRequest w result r s))"
  unfolding makeRequest_def by (rule makeRequest_from_run)

lemma getDNSRecords_run:
  "run (\<lambda>e. method_req (sent e) = GET) s (snd (getDNSRecords w zones domain s))"
proof (cases "getZoneIdForDomain zones domain")
  case None
  then show ?thesis by (simp add: getDNSRecords_def)
next
  case (Some zoneId)
  let ?r = "\<lparr>method_req = GET, url_req = recordsUrl zoneId, body_req = NoBody\<rparr>"
  have "run (\<lambda>e. method_req (sent e) = GET) s (snd (makeRequest w (\<lambda>k. recordsAt w k zoneId) ?r s))"
    using makeRequest_run [of ?r s w "\<lambda>k. recordsAt w k zoneId"] by (rule run_mono) simp
  with Some show ?thesis
    by (auto simp: getDNSRecords_def split: prod.splits sum.splits)
qed

lemma hasWildcardARecord_run:
  "run (\<lambda>e. method_req (sent e) = GET) s (snd (hasWildcardARecord w zones domain s))"
proof (cases "getDNSRecords w zones (getRootDomain zones domain) s")
  case (Pair records s1)
  with getDNSRecords_run [of s w zones "getRootDomain zones domain"] show ?thesis
    by (simp add: hasWildcardARecord_def Let_def)
qed

lemma createDNSRecord_run:
  "run (creation data) s (snd (createDNSRecord w zones domain data s))"
proof (cases "getZoneIdForDomain zones domain")
  case None
  then show ?thesis by (simp add: createDNSRecord_def)
next
  case (Some zoneId)
  let ?r = "\<lparr>method_req = POST, url_req = recordsUrl zoneId, body_req = CreateBody data\<rparr>"
  let ?g = "if type_new data = ''CNAME'' then hasWildcardARecord w zones domain s else (False, s)"
  have g: "run (creation data) s (snd ?g)"
    using hasWildcardARecord_run [of s w zones domain]
    by (auto intro: run_mono simp: creation_def)
  have p: "run (creation data) (snd ?g) (snd (makeRequest w (recordAt w) ?r (snd ?g)))"
    using makeRequest_run [of ?r "snd ?g" w "recordAt w"] by (rule run_mono) (simp add: creation_def)
  from g p have "run (creation data) s (snd (makeRequest w (recordAt w) ?r (snd ?g)))"
    by (rule run_trans)
  with g Some show ?thesis
    by (auto simp: createDNSRecord_def split: prod.splits sum.splits if_splits)
qed


lemma updateDNSRecord_run:
  "run updating s (snd (updateDNSRecord w zones domain recordId data s))"
proof (cases "getZoneIdForDomain zones domain")
  case None
  then show ?thesis by (simp add: updateDNSRecord_def)
next
  case (Some zoneId)
  let ?r = "\<lparr>method_req = PUT, url_req = recordsUrl zoneId @ ''/'' @ recordId,
             body_req = UpdateBody data\<rparr>"
  let ?g = "if type_patch data = Some ''CNAME'' then hasWildcardARecord w zones domain s else (False, s)"
  have g: "run updating s (snd ?g)"
    using hasWildcardARecord_run [of s w zones domain]
    by (auto intro: run_mono simp: updating_def)
  have p: "run updating (snd ?g) (snd (makeRequest w (recordAt w) ?r (snd ?g)))"
    using makeRequest_run [of ?r "snd ?g" w "recordAt w"] by (rule run_mono) (simp add: updating_def)
  from g p have "run updating s (snd (makeRequest w (recordAt w) ?r (snd ?g)))"
    by (rule run_trans)
  with g Some show ?thesis
    by (auto simp: updateDNSRecord_def split: prod.splits sum.splits if_splits)
qed

lemma deleteDNSRecord_run:
  "run deleting s (snd (deleteDNSRecord w zones domain recordId s))"
proof (cases "getZoneIdForDomain zones domain")
  case None
  then show ?thesis by (simp add: deleteDNSRecord_def)
next
  case (Some zoneId)
  let ?r = "\<lparr>method_req = DELETE, url_req = recordsUrl zoneId @ ''/'' @ recordId,
             body_req = NoBody\<rparr>"
  have "run deleting s (snd (makeRequest w (\<lambda>k. ()) ?r s))"
    using makeRequest_run [of ?r s w "\<lambda>k. ()"] by (rule run_mono) (simp add: deleting_def)
  with Some show ?thesis
    by (auto simp: deleteDNSRecord_def split: prod.splits sum.splits)
qed

lemma run_cache: "run P s s1 \<Longrightarrow> run P s (s1\<lparr>cachedIP := c, lastCheck := t\<rparr>)"
  by (simp add: run_def)

lemma getPublicIP_run:
  "run (\<lambda>e. method_req (sent e) = GET) s (snd (getPublicIP w s))"
proof (cases "fresh s")
  case True
  then show ?thesis by (simp add: getPublicIP_def split: option.splits)
next
  case False
  obtain r s1 where t: "tryServices w services s = (r, s1)"
    by (cases "tryServices w services s")
  from tryServices_spec [OF t] have "run (\<lambda>e. method_req (sent e) = GET) s s1" by simp
  with False t show ?thesis
    by (auto simp: getPublicIP_def run_cache split: option.splits)
qed

lemma deleteDomain_run: "run deleting s (deleteDomain w zones domain s)"
proof (cases "getDNSRecords w zones (trim domain) s")
  case (Pair records s1)
  have a: "run deleting s s1"
    using getDNSRecords_run [of s w zones "trim domain"] Pair
    by (auto intro: run_mono simp: deleting_def)
  show ?thesis
  proof (cases "find (\<lambda>r. name_rec r = trim domain) records")
    case None
    with Pair a show ?thesis by (simp add: deleteDomain_def)
  next
    case (Some found)
    from a deleteDNSRecord_run [of s1 w zones "trim domain" "id_rec found"]
    have "run deleting s (snd (deleteDNSRecord w zones (trim domain) (id_rec found) s1))"
      by (rule run_trans)
    with Pair Some show ?thesis by (simp add: deleteDomain_def)
  qed
qed

lemma foldl_run:
  assumes "\<And>x s. run P s (f s x)"
  shows "run P s (foldl f s xs)"
proof (induction xs arbitrary: s)
  case Nil
  show ?case by simp
next
  case (Cons x xs)
  from assms [of s x] Cons [of "f s x"] show ?case
    by (auto intro: run_trans)
qed

lemma handleDeleted_run: "run deleting s (handleDeleted w zones deleted s)"
  unfolding handleDeleted_def
  by (intro foldl_run deleteDomain_run)

lemma ensureRootDomainRecord_run:
  "run (\<lambda>e. method_req (sent e) = GET
            \<or> (method_req (sent e) = POST \<and> createsFor (getRootDomain zones domain) e))
       s (snd (ensureRootDomainRecord cfg w zones domain s))"
  (is "run ?P s _")
proof -
  let ?root = "getRootDomain zones domain"
  obtain records s1 where l: "getDNSRecords w zones ?root s = (records, s1)"
    by (cases "getDNSRecords w zones ?root s")
  have a: "run ?P s s1"
    using getDNSRecords_run [of s w zones ?root] unfolding l snd_conv
    by (rule run_mono) simp
  obtain ip s2 where p: "getPublicIP w s1 = (ip, s2)" by (cases "getPublicIP w s1")
  have "run ?P s1 s2"
    using getPublicIP_run [of s1 w] unfolding p snd_conv by (rule run_mono) simp
  with a have b: "run ?P s s2" by (rule run_trans)
  have c: "run ?P s (snd (createDNSRecord w zones ?root
              \<lparr>name_new = ?root, type_new = ''A'', content_new = x, proxied_new = True\<rparr> s2))" for x
  proof -
    let ?d = "\<lparr>name_new = ?root, type_new = ''A'', content_new = x, proxied_new = True\<rparr>"
    have "run ?P s2 (snd (createDNSRecord w zones ?root ?d s2))"
      using createDNSRecord_run [of ?d s2 w zones ?root]
      by (rule run_mono) (auto simp: creation_def createsFor_def)
    with b show ?thesis by (rule run_trans)
  qed
  show ?thesis
  proof (cases "?root = [] \<or> domain = ?root")
    case True
    then show ?thesis by (auto simp: ensureRootDomainRecord_def Let_def)
  next
    case False
    show ?thesis
    proof (cases "find (\<lambda>r. type_rec r = ''A'' \<and> name_rec r = ?root) records")
      case (Some found)
      with False l a show ?thesis by (simp add: ensureRootDomainRecord_def Let_def)
    next
      case None
      show ?thesis
      proof (cases "autoCreateRootRecords cfg")
        case off: False
        with False None l a show ?thesis by (simp add: ensureRootDomainRecord_def Let_def)
      next
        case on: True
        show ?thesis
        proof (cases ip)
          case (Inl e)
          with False None on l p b show ?thesis
            by (simp add: ensureRootDomainRecord_def Let_def)
        next
          case (Inr publicIP)
          obtain created s3 where cr: "createDNSRecord w zones ?root
              \<lparr>name_new = ?root, type_new = ''A'', content_new = publicIP, proxied_new = True\<rparr> s2
              = (created, s3)"
            by (cases "createDNSRecord w zones ?root
              \<lparr>name_new = ?root, type_new = ''A'', content_new = publicIP, proxied_new = True\<rparr> s2")
          from c [of publicIP] have "run ?P s s3" unfolding cr snd_conv .
          with False None on l p Inr cr show ?thesis
            by (cases created) (simp_all add: ensureRootDomainRecord_def Let_def)
        qed
      qed
    qed
  qed
qed


section \<open>The wildcard guard\<close>

lemma getZoneIdForDomain_root:
  "getZoneIdForDomain zones (getRootDomain zones domain) = getZoneIdForDomain zones domain"
  by (simp add: getZoneIdForDomain_def getRootDomain_idem)

lemma getDNSRecords_known:
  assumes "getDNSRecords w zones domain s = (records, s1)" "records \<noteq> []"
  shows "\<exists>zoneId. getZoneIdForDomain zones domain = Some zoneId \<and> zoneId \<noteq> []"
  using assms by (auto simp: getDNSRecords_def split: option.splits if_splits)

text \<open>
  Claim C3, as amended. When the listing of the records of the hostname's zone succeeds
  and shows an A record named \<open>*.<zone>\<close>, \<open>createDNSRecord\<close> with data of type CNAME
  and \<open>updateDNSRecord\<close> with a patch of type CNAME both return null, and nothing but
  the read requests of that listing has been sent: no POST and no PUT.
\<close>

theorem wildcard_guard:
  assumes "getDNSRecords w zones (getRootDomain zones domain) s = (records, s1)"
    and "list_ex (isWildcardA (getRootDomain zones domain)) records"
    and "type_new data = ''CNAME''" and "type_patch patch = Some ''CNAME''"
  shows "createDNSRecord w zones domain data s = (None, s1)
         \<and> updateDNSRecord w zones domain recordId patch s = (None, s1)
         \<and> list_all (\<lambda>e. method_req (sent e) = GET) (issued s s1)"
proof -
  from assms(2) have ne: "records \<noteq> []" by (auto simp: list_ex_iff)
  from getDNSRecords_known [OF assms(1) ne] obtain zoneId
    where z: "getZoneIdForDomain zones domain = Some zoneId" "zoneId \<noteq> []"
    by (auto simp: getZoneIdForDomain_root)
  have "find (isWildcardA (getRootDomain zones domain)) records \<noteq> None"
    using assms(2) by (auto simp: find_None_iff list_ex_iff)
  then have h: "hasWildcardARecord w zones domain s = (True, s1)"
    using assms(1) by (simp add: hasWildcardARecord_def Let_def)
  have c: "createDNSRecord w zones domain data s = (None, s1)"
    using z h assms(3) by (simp add: createDNSRecord_def)
  have u: "updateDNSRecord w zones domain recordId patch s = (None, s1)"
    using z h assms(4) by (simp add: updateDNSRecord_def)
  have "run (\<lambda>e. method_req (sent e) = GET) s s1"
    using getDNSRecords_run [of s w zones "getRootDomain zones domain"] assms(1) by simp
  from run_issued [OF this] c u show ?thesis by simp
qed

lemma exchanged_exchange [simp]: "exchanged (snd (exchange w r s)) = exchanged s + 1"
  by (simp add: exchange_def)

lemma exchanged_sleep [simp]: "exchanged (sleep d s) = exchanged s"
  by (simp add: sleep_def)

lemma exchanged_delay [simp]: "exchanged (delay a s) = exchanged s"
  by (simp add: delay_def)

lemma makeRequest_succeeds:
  assumes "outcomeOf w (exchanged s) = Response status ra (Envelope True)" "ok status"
  shows "makeRequest w result r s = (Inr (result (exchanged s)), snd (exchange w r s))"
proof -
  have lt: "0 < maxRetries" by (simp add: maxRetries_def)
  show ?thesis by (simp add: makeRequest_def makeRequest_from_unfold [OF lt] assms)
qed


lemma makeRequest_from_network_retry:
  assumes "attempt < maxRetries - 1" "outcomeOf w (exchanged s) = NetworkError"
  shows "makeRequest_from w result r attempt s
         = makeRequest_from w result r (attempt + 1) (delay attempt (snd (exchange w r s)))"
proof -
  have lt: "attempt < maxRetries" using assms(1) by simp
  show ?thesis using assms by (simp add: makeRequest_from_unfold [OF lt])
qed

lemma makeRequest_from_network_last:
  assumes "attempt < maxRetries" "\<not> attempt < maxRetries - 1"
    and "outcomeOf w (exchanged s) = NetworkError"
  shows "makeRequest_from w result r attempt s = (Inl OtherError, snd (exchange w r s))"
  using assms(2,3) by (simp add: makeRequest_from_unfold [OF assms(1)])

lemma makeRequest_unreachable:
  assumes "outcomeOf w (exchanged s) = NetworkError"
    and "outcomeOf w (exchanged s + 1) = NetworkError"
    and "outcomeOf w (exchanged s + 2) = NetworkError"
  shows "makeRequest w result r s
         = (Inl OtherError,
            snd (exchange w r (delay 1 (snd (exchange w r (delay 0 (snd (exchange w r s))))))))"
proof -
  let ?s1 = "delay 0 (snd (exchange w r s))"
  let ?s2 = "delay (0 + 1) (snd (exchange w r ?s1))"
  have a: "makeRequest_from w result r 0 s = makeRequest_from w result r (0 + 1) ?s1"
    using assms(1) by (intro makeRequest_from_network_retry) (simp_all add: maxRetries_def)
  have b: "makeRequest_from w result r (0 + 1) ?s1 = makeRequest_from w result r (0 + 1 + 1) ?s2"
    using assms(2) by (intro makeRequest_from_network_retry) (simp_all add: maxRetries_def)
  have c: "makeRequest_from w result r (0 + 1 + 1) ?s2 = (Inl OtherError, snd (exchange w r ?s2))"
    using assms(3) by (intro makeRequest_from_network_last) (simp_all add: maxRetries_def)
  show ?thesis unfolding makeRequest_def a b c by simp
qed

lemma root_of_sub: "getRootDomain oneZone ''sub.example.com'' = ''example.com''"
  by (simp add: getRootDomain_def betterMatch_def oneZone_def endsWith_def)

lemma zone_of_example:
  "getZoneIdForDomain oneZone ''sub.example.com'' = Some ''zone-1''"
  "getZoneIdForDomain oneZone ''example.com'' = Some ''zone-1''"
  by (simp_all add: getZoneIdForDomain_def getRootDomain_def betterMatch_def oneZone_def endsWith_def)

lemma listing_fails:
  "getDNSRecords listingFails oneZone ''example.com'' startState = ([], afterThreeFailures)"
proof -
  have o: "outcomeOf listingFails (exchanged startState) = NetworkError"
    "outcomeOf listingFails (exchanged startState + 1) = NetworkError"
    "outcomeOf listingFails (exchanged startState + 2) = NetworkError"
    by (simp_all add: listingFails_def startState_def)
  have "snd (exchange listingFails readRecords
          (delay 1 (snd (exchange listingFails readRecords
             (delay 0 (snd (exchange listingFails readRecords startState)))))))
        = afterThreeFailures"
    by (simp add: exchange_def delay_def sleep_def timerDelay_def TIMEOUT_MAX_def retryDelay_def
        startState_def listingFails_def afterThreeFailures_def)
  with makeRequest_unreachable [OF o, of "\<lambda>k. recordsAt listingFails k ''zone-1''" readRecords]
  show ?thesis
    by (simp add: getDNSRecords_def zone_of_example readRecords_def)
qed

text \<open>
  The claim as stated fails. In the world \<open>listingFails\<close> the zone holds the wildcard A
  record all the time, but the three attempts to list its records fail; \<open>getDNSRecords\<close>
  then gives the empty list, the guard sees no wildcard record, and the CNAME is created.
\<close>

theorem wildcard_guard_counterexample:
  "getRootDomain oneZone ''sub.example.com'' = ''example.com''
   \<and> isWildcardA ''example.com'' wildcardRecord
   \<and> recordsAt listingFails 0 ''zone-1'' = [wildcardRecord]
   \<and> recordsAt listingFails 3 ''zone-1'' = [wildcardRecord]
   \<and> type_new subCname = ''CNAME''
   \<and> fst (createDNSRecord listingFails oneZone ''sub.example.com'' subCname startState) = Some subRecord
   \<and> map (\<lambda>e. method_req (sent e))
         (requests (snd (createDNSRecord listingFails oneZone ''sub.example.com'' subCname startState)))
       = [GET, GET, GET, POST]"
proof -
  have h: "hasWildcardARecord listingFails oneZone ''sub.example.com'' startState
           = (False, afterThreeFailures)"
    by (simp add: hasWildcardARecord_def root_of_sub listing_fails)
  let ?post = "\<lparr>method_req = POST, url_req = recordsUrl ''zone-1'', body_req = CreateBody subCname\<rparr>"
  have "outcomeOf listingFails (exchanged afterThreeFailures) = Response 200 None (Envelope True)"
    by (simp add: listingFails_def afterThreeFailures_def)
  from makeRequest_succeeds [OF this, of "recordAt listingFails" ?post]
  have p: "makeRequest listingFails (recordAt listingFails) ?post afterThreeFailures
           = (Inr subRecord, snd (exchange listingFails ?post afterThreeFailures))"
    by (simp add: ok_def listingFails_def)
  have c: "createDNSRecord listingFails oneZone ''sub.example.com'' subCname startState
           = (Some subRecord, snd (exchange listingFails ?post afterThreeFailures))"
    using h p by (simp add: createDNSRecord_def zone_of_example subCname_def)
  show ?thesis
    unfolding c
    by (simp add: root_of_sub isWildcardA_def wildcardRecord_def listingFails_def subCname_def
        exchange_def afterThreeFailures_def readRecords_def)
qed


lemma listing_succeeds:
  "getDNSRecords wildcardZone oneZone ''example.com'' startState = ([wildcardRecord], afterListing)"
proof -
  have o: "outcomeOf wildcardZone (exchanged startState) = Response 200 None (Envelope True)"
    by (simp add: wildcardZone_def)
  have "snd (exchange wildcardZone readRecords startState) = afterListing"
    by (simp add: exchange_def startState_def wildcardZone_def afterListing_def)
  with makeRequest_succeeds [OF o, of "\<lambda>k. recordsAt wildcardZone k ''zone-1''" readRecords]
  show ?thesis
    by (simp add: getDNSRecords_def zone_of_example readRecords_def ok_def wildcardZone_def)
qed

theorem wildcard_guard_witness:
  "getDNSRecords wildcardZone oneZone (getRootDomain oneZone ''sub.example.com'') startState
     = ([wildcardRecord], afterListing)
   \<and> list_ex (isWildcardA (getRootDomain oneZone ''sub.example.com'')) [wildcardRecord]
   \<and> type_new subCname = ''CNAME''
   \<and> type_patch cnamePatch = Some ''CNAME''
   \<and> createDNSRecord wildcardZone oneZone ''sub.example.com'' subCname startState = (None, afterListing)
   \<and> updateDNSRecord wildcardZone oneZone ''sub.example.com'' ''r-sub'' cnamePatch startState
       = (None, afterListing)
   \<and> issued startState afterListing = [\<lparr>sent_at = 1000, sent = readRecords\<rparr>]"
proof -
  have a: "getDNSRecords wildcardZone oneZone (getRootDomain oneZone ''sub.example.com'') startState
           = ([wildcardRecord], afterListing)"
    by (simp add: root_of_sub listing_succeeds)
  have b: "list_ex (isWildcardA (getRootDomain oneZone ''sub.example.com'')) [wildcardRecord]"
    by (simp add: root_of_sub isWildcardA_def wildcardRecord_def)
  have c: "type_new subCname = ''CNAME''" by (simp add: subCname_def)
  have d: "type_patch cnamePatch = Some ''CNAME''" by (simp add: cnamePatch_def)
  have e: "issued startState afterListing = [\<lparr>sent_at = 1000, sent = readRecords\<rparr>]"
    by (simp add: issued_def startState_def afterListing_def)
  from wildcard_guard [OF a b c d, of "''r-sub''"] a b c d e show ?thesis by simp
qed


section \<open>Deleted hosts first, existing records skipped\<close>

lemma run_append:
  "run P s s1 \<Longrightarrow> run Q s1 s2 \<Longrightarrow>
     requests s2 = requests s @ issued s s1 @ issued s1 s2
     \<and> list_all P (issued s s1) \<and> list_all Q (issued s1 s2)
     \<and> issued s s2 = issued s s1 @ issued s1 s2"
  by (auto simp: run_def issued_def)

lemma processDomain_run: "run creating s (snd (processDomain cfg w zones domain s))"
proof -
  let ?d = "trim domain"
  let ?root = "getRootDomain zones ?d"
  let ?pre = "if ?d \<noteq> ?root then ensureRootDomainRecord cfg w zones ?d s else (Inr True, s)"
  obtain e s1 where pre: "?pre = (e, s1)" by (cases ?pre)
  have a: "run creating s s1"
  proof (cases "?d \<noteq> ?root")
    case True
    have "run creating s (snd (ensureRootDomainRecord cfg w zones ?d s))"
      using ensureRootDomainRecord_run [of zones ?d s cfg w]
      by (rule run_mono) (auto simp: creating_def)
    with True pre show ?thesis by simp
  next
    case False
    with pre show ?thesis by auto
  qed
  obtain records s2 where l: "getDNSRecords w zones ?d s1 = (records, s2)"
    by (cases "getDNSRecords w zones ?d s1")
  have "run creating s1 s2"
    using getDNSRecords_run [of s1 w zones ?d] unfolding l snd_conv
    by (rule run_mono) (simp add: creating_def)
  with a have b: "run creating s s2" by (rule run_trans)
  have c: "run creating s (snd (createDNSRecord w zones ?d data s2))" for data
  proof -
    have "run creating s2 (snd (createDNSRecord w zones ?d data s2))"
      using createDNSRecord_run [of data s2 w zones ?d]
      by (rule run_mono) (auto simp: creation_def creating_def)
    with b show ?thesis by (rule run_trans)
  qed
  obtain ip s3 where p: "getPublicIP w s2 = (ip, s3)" by (cases "getPublicIP w s2")
  have "run creating s2 s3"
    using getPublicIP_run [of s2 w] unfolding p snd_conv by (rule run_mono) (simp add: creating_def)
  with b have d: "run creating s s3" by (rule run_trans)
  have f: "run creating s (snd (createDNSRecord w zones ?d data s3))" for data
  proof -
    have "run creating s3 (snd (createDNSRecord w zones ?d data s3))"
      using createDNSRecord_run [of data s3 w zones ?d]
      by (rule run_mono) (auto simp: creation_def creating_def)
    with d show ?thesis by (rule run_trans)
  qed
  show ?thesis
  proof (cases e)
    case (Inl err)
    with pre a show ?thesis by (simp add: processDomain_def Let_def)
  next
    case (Inr success)
    show ?thesis
    proof (cases success)
      case False
      with Inr pre a show ?thesis by (simp add: processDomain_def Let_def)
    next
      case True
      show ?thesis
      proof (cases "find (\<lambda>r. name_rec r = ?d) records")
        case (Some found)
        with True Inr pre l b show ?thesis by (simp add: processDomain_def Let_def)
      next
        case None
        show ?thesis
        proof (cases "?d \<noteq> ?root")
          case sub: True
          with None True Inr pre l c show ?thesis by (simp add: processDomain_def Let_def)
        next
          case root: False
          show ?thesis
          proof (cases ip)
            case (Inl err)
            with root None True Inr pre l p d show ?thesis
              by (simp add: processDomain_def Let_def)
          next
            case ipr: (Inr currentIP)
            with root None True Inr pre l p d f show ?thesis
              by (simp add: processDomain_def Let_def)
          qed
        qed
      qed
    qed
  qed
qed

lemma processDomains_run: "run creating s (snd (processDomains cfg w zones domains s))"
proof (induction domains arbitrary: s)
  case Nil
  show ?case by simp
next
  case (Cons domain rest)
  obtain e s1 where p: "processDomain cfg w zones domain s = (e, s1)"
    by (cases "processDomain cfg w zones domain s")
  from processDomain_run [of s cfg w zones domain] p have a: "run creating s s1" by simp
  show ?case
  proof (cases e)
    case (Inl err)
    with p a show ?thesis by simp
  next
    case (Inr u)
    from a Cons [of s1] have "run creating s (snd (processDomains cfg w zones rest s1))"
      by (rule run_trans)
    with p Inr show ?thesis by simp
  qed
qed

lemma handleChanged_run: "run creating s (snd (handleChanged cfg w zones changed s))"
proof (induction changed arbitrary: s)
  case Nil
  show ?case by simp
next
  case (Cons host rest)
  let ?ds = "domainList (domain_names host)"
  obtain e s1 where p: "processDomains cfg w zones ?ds s = (e, s1)"
    by (cases "processDomains cfg w zones ?ds s")
  from processDomains_run [of s cfg w zones ?ds] p have a: "run creating s s1" by simp
  show ?case
  proof (cases e)
    case (Inl err)
    with p a show ?thesis by simp
  next
    case (Inr u)
    from a Cons [of s1] have "run creating s (snd (handleChanged cfg w zones rest s1))"
      by (rule run_trans)
    with p Inr show ?thesis by simp
  qed
qed

text \<open>
  Claim C9. In one call of \<open>handleNPMChanges\<close> (with a token, so that the client is
  constructed) the requests sent after \<open>initZones\<close> are those of the loop over the
  deleted hosts followed by those of the loop over the changed and new hosts; the first
  loop sends only reads and deletes, the second only reads and creates. So every delete
  for the deleted hosts is sent before any create for the changed hosts, and the second
  loop sends no update at all.
\<close>

theorem deletions_before_creations:
  assumes "apiToken cfg \<noteq> []"
    and "initZones w s = (zones, s1)"
    and "handleDeleted w zones deleted s1 = s2"
    and "handleChanged cfg w zones changed s2 = (r, s3)"
  shows "handleNPMChanges cfg w current changed deleted s = (r, s3)
         \<and> requests s3 = requests s1 @ issued s1 s2 @ issued s2 s3
         \<and> list_all deleting (issued s1 s2)
         \<and> list_all creating (issued s2 s3)"
proof -
  have h: "handleNPMChanges cfg w current changed deleted s = (r, s3)"
    using assms by (simp add: handleNPMChanges_def)
  have a: "run deleting s1 s2"
    using handleDeleted_run [of s1 w zones deleted] assms(3) by simp
  have b: "run creating s2 s3"
    using handleChanged_run [of s2 cfg w zones changed] assms(4) by simp
  from run_append [OF a b] h show ?thesis by simp
qed



section \<open>Runs of the orchestrator in given worlds\<close>

lemma fields_exchange [simp]:
  "requests (snd (exchange w r s)) = requests s @ [\<lparr>sent_at = clock s, sent = r\<rparr>]"
  "clock (snd (exchange w r s)) = clock s + latency w (exchanged s)"
  "cachedIP (snd (exchange w r s)) = cachedIP s"
  "lastCheck (snd (exchange w r s)) = lastCheck s"
  by (simp_all add: exchange_def)

lemma fields_delay [simp]:
  "requests (delay a s) = requests s"
  "cachedIP (delay a s) = cachedIP s"
  "lastCheck (delay a s) = lastCheck s"
  by (simp_all add: delay_def sleep_def)

lemma getDNSRecords_ok:
  assumes "getZoneIdForDomain zones domain = Some zoneId" "zoneId \<noteq> []"
    and "outcomeOf w (exchanged s) = Response 200 None (Envelope True)"
  shows "getDNSRecords w zones domain s
         = (recordsAt w (exchanged s) zoneId,
            snd (exchange w \<lparr>method_req = GET, url_req = recordsUrl zoneId, body_req = NoBody\<rparr> s))"
  using assms makeRequest_succeeds [OF assms(3), of "\<lambda>k. recordsAt w k zoneId"]
  by (simp add: getDNSRecords_def ok_def)



lemma root_of_root: "getRootDomain oneZone ''example.com'' = ''example.com''"
  by (simp add: getRootDomain_def betterMatch_def oneZone_def endsWith_def)



section \<open>A run in which nothing fails\<close>

lemma steady_ok: "outcomeOf steady k = Response 200 None (Envelope True)"
  by (simp add: steady_def)

lemma steady_records: "recordsAt steady k ''zone-1'' = [rootRecord, oldRecord, subRecord]"
  by (simp add: steady_def)

lemma steady_exchange:
  "snd (exchange steady r (stateAt k l)) = stateAt (Suc k) (l @ [\<lparr>sent_at = 1000 + 50 * k, sent = r\<rparr>])"
  by (simp add: exchange_def stateAt_def steady_def)

lemma steady_listing:
  assumes "getZoneIdForDomain oneZone domain = Some ''zone-1''"
  shows "getDNSRecords steady oneZone domain (stateAt k l)
         = ([rootRecord, oldRecord, subRecord],
            stateAt (Suc k) (l @ [\<lparr>sent_at = 1000 + 50 * k, sent = readRecords\<rparr>]))"
  using getDNSRecords_ok [OF assms _ steady_ok, of "stateAt k l"]
  by (simp add: steady_records steady_exchange readRecords_def [symmetric])

lemma zone_of_old_new:
  "getZoneIdForDomain oneZone ''old.example.com'' = Some ''zone-1''"
  "getZoneIdForDomain oneZone ''new.example.com'' = Some ''zone-1''"
  "getRootDomain oneZone ''new.example.com'' = ''example.com''"
  by (simp_all add: getZoneIdForDomain_def getRootDomain_def betterMatch_def oneZone_def endsWith_def)

lemma trims:
  "trim '' sub.example.com'' = ''sub.example.com''"
  "trim ''new.example.com'' = ''new.example.com''"
  "trim ''old.example.com'' = ''old.example.com''"
  by (simp_all add: trim_def isWhiteSpace_def)

lemma steady_ensure:
  assumes "getRootDomain oneZone domain = ''example.com''" "domain \<noteq> ''example.com''"
  shows "ensureRootDomainRecord manualRoots steady oneZone domain (stateAt k l)
         = (Inr True, stateAt (Suc k) (l @ [\<lparr>sent_at = 1000 + 50 * k, sent = readRecords\<rparr>]))"
  using assms
  by (simp add: ensureRootDomainRecord_def steady_listing zone_of_example rootRecord_def)



lemma steady_skip:
  "processDomain manualRoots steady oneZone '' sub.example.com'' afterDeleted = (Inr (), afterSkip)"
  by (simp add: processDomain_def trims root_of_sub afterDeleted_def steady_ensure steady_listing
      zone_of_example afterSkip_def skipLog_def subRecord_def rootRecord_def oldRecord_def
      eval_nat_numeral)

lemma steady_create:
  "processDomain manualRoots steady oneZone ''new.example.com'' afterSkip = (Inr (), afterChanged)"
proof -
  let ?l = "initLog @ deletedLog @ skipLog"
  let ?l3 = "?l @ [\<lparr>sent_at = 1350, sent = readRecords\<rparr>, \<lparr>sent_at = 1400, sent = readRecords\<rparr>,
                   \<lparr>sent_at = 1450, sent = readRecords\<rparr>]"
  have e: "ensureRootDomainRecord manualRoots steady oneZone ''new.example.com'' afterSkip
           = (Inr True, stateAt 8 (?l @ [\<lparr>sent_at = 1350, sent = readRecords\<rparr>]))"
    by (simp add: afterSkip_def steady_ensure zone_of_old_new eval_nat_numeral)
  have l: "getDNSRecords steady oneZone ''new.example.com''
             (stateAt 8 (?l @ [\<lparr>sent_at = 1350, sent = readRecords\<rparr>]))
           = ([rootRecord, oldRecord, subRecord],
              stateAt 9 (?l @ [\<lparr>sent_at = 1350, sent = readRecords\<rparr>,
                               \<lparr>sent_at = 1400, sent = readRecords\<rparr>]))"
    by (simp add: steady_listing zone_of_old_new eval_nat_numeral)
  have h: "hasWildcardARecord steady oneZone ''new.example.com''
             (stateAt 9 (?l @ [\<lparr>sent_at = 1350, sent = readRecords\<rparr>,
                               \<lparr>sent_at = 1400, sent = readRecords\<rparr>]))
           = (False, stateAt 10 ?l3)"
    by (simp add: hasWildcardARecord_def zone_of_old_new steady_listing zone_of_example
        isWildcardA_def rootRecord_def oldRecord_def subRecord_def eval_nat_numeral)
  have p: "makeRequest steady (recordAt steady) createNew (stateAt 10 ?l3)
           = (Inr newRecord, afterChanged)"
    using makeRequest_succeeds [where s = "stateAt 10 ?l3" and result = "recordAt steady"
        and r = createNew, OF steady_ok]
    by (simp add: ok_def steady_exchange afterChanged_def createLog_def eval_nat_numeral)
       (simp add: steady_def)
  have c: "createDNSRecord steady oneZone ''new.example.com'' newCname
             (stateAt 9 (?l @ [\<lparr>sent_at = 1350, sent = readRecords\<rparr>,
                               \<lparr>sent_at = 1400, sent = readRecords\<rparr>]))
           = (Some newRecord, afterChanged)"
    using h p by (simp add: createDNSRecord_def zone_of_old_new newCname_def createNew_def)
  show ?thesis
    using e l c
    by (simp add: processDomain_def trims zone_of_old_new newCname_def
        rootRecord_def oldRecord_def subRecord_def)
qed

lemma steady_changed:
  "handleChanged manualRoots steady oneZone [hostNew] afterDeleted = (Inr (), afterChanged)"
  by (simp add: hostNew_def domainList_def steady_skip steady_create)

lemma steady_deleted: "handleDeleted steady oneZone [hostOld] afterInit = afterDeleted"
proof -
  let ?s4 = "stateAt 4 (initLog @ [\<lparr>sent_at = 1150, sent = readRecords\<rparr>])"
  have l: "getDNSRecords steady oneZone ''old.example.com'' afterInit
           = ([rootRecord, oldRecord, subRecord], ?s4)"
    by (simp add: afterInit_def steady_listing zone_of_old_new eval_nat_numeral)
  have m: "makeRequest steady (\<lambda>k. ()) deleteOld ?s4 = (Inr (), afterDeleted)"
    using makeRequest_succeeds [where s = ?s4 and result = "\<lambda>k. ()" and r = deleteOld, OF steady_ok]
    by (simp add: ok_def steady_exchange afterDeleted_def deletedLog_def eval_nat_numeral)
  have d: "deleteDNSRecord steady oneZone ''old.example.com'' ''r-old'' ?s4 = (True, afterDeleted)"
    using m by (simp add: deleteDNSRecord_def zone_of_old_new deleteOld_def)
  have "deleteDomain steady oneZone ''old.example.com'' afterInit = afterDeleted"
    using l d by (simp add: deleteDomain_def trims rootRecord_def oldRecord_def)
  then show ?thesis
    by (simp add: handleDeleted_def hostOld_def domainList_def)
qed

lemma steady_init: "initZones steady startState = (oneZone, afterInit)"
proof -
  let ?sZ = "snd (exchange steady zonesRequest startState)"
  have z: "getZones steady startState
           = ([\<lparr>id_zone = ''zone-1'', name_zone = ''example.com''\<rparr>], ?sZ)"
    using makeRequest_succeeds [where s = startState and result = "zonesAt steady"
        and r = zonesRequest, OF steady_ok]
    by (simp add: getZones_def ok_def zonesRequest_def) (simp add: steady_def)
  have nf: "\<not> fresh ?sZ" by (simp add: fresh_def truthy_def startState_def)
  have ask: "askService steady (hd services) ?sZ
             = (Some ''203.0.113.7'',
                \<lparr>clock = 1100, exchanged = 2,
                 requests = [\<lparr>sent_at = 1000, sent = zonesRequest\<rparr>, \<lparr>sent_at = 1050, sent = ipRequest\<rparr>],
                 cachedIP = None, lastCheck = 0\<rparr>)"
    by (simp add: askService_def services_def exchange_def startState_def steady_def ipRequest_def
        validated_def ok_def matchesIPv4_def digitGroup_def isDigit_def)
  have t: "tryServices steady services ?sZ
           = (Some ''203.0.113.7'',
                \<lparr>clock = 1100, exchanged = 2,
                 requests = [\<lparr>sent_at = 1000, sent = zonesRequest\<rparr>, \<lparr>sent_at = 1050, sent = ipRequest\<rparr>],
                 cachedIP = None, lastCheck = 0\<rparr>)"
    using ask by (simp add: services_def MAX_RETRIES_def eval_nat_numeral)
  have c: "clock ?sZ = 1050" by (simp add: startState_def steady_def)
  have ip: "getPublicIP steady ?sZ
            = (Inr ''203.0.113.7'',
               stateAt 2 [\<lparr>sent_at = 1000, sent = zonesRequest\<rparr>, \<lparr>sent_at = 1050, sent = ipRequest\<rparr>])"
    using nf t c by (simp add: getPublicIP_def stateAt_def)
  have r: "reconcileRoot steady oneZone ''203.0.113.7'' ''example.com''
             (stateAt 2 [\<lparr>sent_at = 1000, sent = zonesRequest\<rparr>, \<lparr>sent_at = 1050, sent = ipRequest\<rparr>])
           = afterInit"
    by (simp add: reconcileRoot_def steady_listing zone_of_example rootRecord_def afterInit_def
        initLog_def eval_nat_numeral)
  have u: "updateRootDomainRecords steady oneZone ?sZ = afterInit"
    using ip r by (simp add: updateRootDomainRecords_def oneZone_def [symmetric])
       (simp add: oneZone_def r [unfolded oneZone_def])
  show ?thesis
    using z u by (simp add: initZones_def AList.update.simps oneZone_def [symmetric])
qed

theorem deletions_before_creations_witness:
  "apiToken manualRoots \<noteq> []
   \<and> initZones steady startState = (oneZone, afterInit)
   \<and> handleDeleted steady oneZone [hostOld] afterInit = afterDeleted
   \<and> handleChanged manualRoots steady oneZone [hostNew] afterDeleted = (Inr (), afterChanged)
   \<and> handleNPMChanges manualRoots steady [hostNew] [hostNew] [hostOld] startState
       = (Inr (), afterChanged)
   \<and> requests afterChanged = initLog @ deletedLog @ skipLog @ createLog
   \<and> issued afterInit afterDeleted = deletedLog
   \<and> issued afterDeleted afterChanged = skipLog @ createLog
   \<and> map (\<lambda>e. method_req (sent e)) deletedLog = [GET, DELETE]
   \<and> map (\<lambda>e. method_req (sent e)) (skipLog @ createLog) = [GET, GET, GET, GET, GET, POST]"
proof -
  have a: "apiToken manualRoots \<noteq> []" by (simp add: manualRoots_def)
  have b: "issued afterInit afterDeleted = deletedLog"
    "issued afterDeleted afterChanged = skipLog @ createLog"
    "requests afterChanged = initLog @ deletedLog @ skipLog @ createLog"
    by (simp_all add: issued_def afterInit_def afterDeleted_def afterChanged_def stateAt_def)
  have c: "map (\<lambda>e. method_req (sent e)) deletedLog = [GET, DELETE]"
    "map (\<lambda>e. method_req (sent e)) (skipLog @ createLog) = [GET, GET, GET, GET, GET, POST]"
    by (simp_all add: deletedLog_def skipLog_def createLog_def readRecords_def deleteOld_def
        createNew_def)
  from deletions_before_creations [OF a steady_init steady_deleted steady_changed, of "[hostNew]"]
    a steady_init steady_deleted steady_changed b c
  show ?thesis by simp
qed


section \<open>A failed fetch deletes the records of every known host\<close>

lemma handleDeleted_domains:
  "handleDeleted w zones hosts s
   = foldl (\<lambda>s' d. deleteDomain w zones d s') s (domainsOf hosts)"
proof (induction hosts arbitrary: s)
  case Nil
  show ?case by (simp add: handleDeleted_def domainsOf_def)
next
  case (Cons host hosts)
  from Cons [of "foldl (\<lambda>s' d. deleteDomain w zones d s') s (domainList (domain_names host))"]
  show ?case by (simp add: handleDeleted_def domainsOf_def)
qed

lemma issued_between:
  assumes "run P s a" "run Q a b" "run R b c"
  shows "set (issued a b) \<subseteq> set (issued s c)"
  using assms by (auto simp: run_def issued_def)

text \<open>
  The turn of the deletion loop for one domain: when the listing shows a record with
  that name, the request that deletes this record is sent next.
\<close>

lemma deleteDomain_sends:
  assumes "getDNSRecords w zones (trim domain) s = (records, s2)"
    and "find (\<lambda>r. name_rec r = trim domain) records = Some found"
  shows "\<exists>zoneId. getZoneIdForDomain zones (trim domain) = Some zoneId
           \<and> \<lparr>sent_at = clock s2,
               sent = \<lparr>method_req = DELETE, url_req = recordsUrl zoneId @ ''/'' @ id_rec found,
                       body_req = NoBody\<rparr>\<rparr>
             \<in> set (issued s2 (deleteDomain w zones domain s))"
proof -
  from assms(2) have "records \<noteq> []" by auto
  from getDNSRecords_known [OF assms(1) this]
  obtain zoneId where z: "getZoneIdForDomain zones (trim domain) = Some zoneId" "zoneId \<noteq> []"
    by blast
  let ?r = "\<lparr>method_req = DELETE, url_req = recordsUrl zoneId @ ''/'' @ id_rec found,
             body_req = NoBody\<rparr>"
  have d: "deleteDomain w zones domain s = snd (makeRequest w (\<lambda>k. ()) ?r s2)"
    using assms z
    by (simp add: deleteDomain_def deleteDNSRecord_def Let_def split: prod.splits sum.splits)
  have "0 < maxRetries" by (simp add: maxRetries_def)
  from makeRequest_from_first [OF this, of s2 w "\<lambda>k. ()" ?r]
  obtain rest where "issued s2 (snd (makeRequest w (\<lambda>k. ()) ?r s2))
                     = \<lparr>sent_at = clock s2, sent = ?r\<rparr> # rest"
    unfolding makeRequest_def by blast
  with d z(1) show ?thesis by simp
qed

lemma deleteDomains_send:
  assumes "ds = pre @ domain # post"
    and "getDNSRecords w zones (trim domain) (foldl (\<lambda>s' d. deleteDomain w zones d s') s1 pre)
         = (records, s2)"
    and "find (\<lambda>r. name_rec r = trim domain) records = Some found"
  shows "\<exists>zoneId. getZoneIdForDomain zones (trim domain) = Some zoneId
           \<and> \<lparr>sent_at = clock s2,
               sent = \<lparr>method_req = DELETE, url_req = recordsUrl zoneId @ ''/'' @ id_rec found,
                       body_req = NoBody\<rparr>\<rparr>
             \<in> set (issued s1 (foldl (\<lambda>s' d. deleteDomain w zones d s') s1 ds))"
proof -
  let ?f = "\<lambda>s' d. deleteDomain w zones d s'"
  let ?sA = "foldl ?f s1 pre"
  let ?sB = "deleteDomain w zones domain ?sA"
  have fin: "foldl ?f s1 ds = foldl ?f ?sB post" by (simp add: assms(1))
  have a: "run (\<lambda>e. True) s1 ?sA"
    by (rule run_mono [OF foldl_run [of deleting ?f s1 pre]]) (simp_all add: deleteDomain_run)
  have b: "run (\<lambda>e. True) ?sA s2"
    using getDNSRecords_run [of ?sA w zones "trim domain"] unfolding assms(2) snd_conv
    by (rule run_mono) simp
  have c: "run (\<lambda>e. True) s2 ?sB"
  proof -
    have "?sB = snd (deleteDNSRecord w zones (trim domain) (id_rec found) s2)"
      using assms(2,3) by (simp add: deleteDomain_def Let_def)
    with deleteDNSRecord_run [of s2 w zones "trim domain" "id_rec found"] show ?thesis
      by (auto intro: run_mono)
  qed
  have d: "run (\<lambda>e. True) ?sB (foldl ?f s1 ds)"
    unfolding fin
    by (rule run_mono [OF foldl_run [of deleting ?f ?sB post]]) (simp_all add: deleteDomain_run)
  from issued_between [OF run_trans [OF a b] c d] deleteDomain_sends [OF assms(2,3)]
  show ?thesis by blast
qed

text \<open>
  Claim C2. When the loop of \<open>getProxyHosts\<close> uses up all its attempts and the
  consecutive-failure counter stays below 5, \<open>getProxyHosts\<close> returns the empty list
  instead of raising (at every depth bound). The diff of that cycle then reports every
  previously known host as deleted (none when the monitor was not yet initialised), and
  the baseline becomes the empty list: the state of the monitor is not what it was
  before the failed fetch. The monitor, started with \<open>handleNPMChanges\<close> as its callback
  (index.ts, \<open>main\<close>), calls it with these hosts as the deleted ones and nothing else.
  With a token, that call is \<open>initZones\<close> followed by the deletion loop over the domains
  of these hosts; and for each of these domains whose listing, fetched in its turn of
  the loop, shows a record with that name, the request that deletes this record is
  among the requests sent.
\<close>

theorem exhausted_fetch_reports_all_deleted:
  assumes "fetch_attempts env maxRetries m = (Exhausted, m1)"
    and "consecutiveFailures m1 + 1 < maxConsecutiveFailures"
  shows "getProxyHosts depth env m
           = Some (Inr [], m1\<lparr>consecutiveFailures := consecutiveFailures m1 + 1\<rparr>)
         \<and> getChangesSinceLastCheck depth getTime env m
           = Some (Inr \<lparr>currentHosts = [], changedHosts = [],
                        deletedHosts = (if isInitialized m then lastKnownHosts m else [])\<rparr>,
                   m1\<lparr>consecutiveFailures := consecutiveFailures m1 + 1,
                      lastKnownHosts := [], isInitialized := True\<rparr>)
         \<and> monitor depth getTime env (handleNPMChanges cfg w) (m, s)
           = Some (m1\<lparr>consecutiveFailures := consecutiveFailures m1 + 1,
                      lastKnownHosts := [], isInitialized := True\<rparr>,
                   if isInitialized m \<and> lastKnownHosts m \<noteq> []
                   then snd (handleNPMChanges cfg w [] [] (lastKnownHosts m) s) else s)
         \<and> (apiToken cfg \<noteq> [] \<and> initZones w s = (zones, s1) \<longrightarrow>
              snd (handleNPMChanges cfg w [] [] (lastKnownHosts m) s)
                = handleDeleted w zones (lastKnownHosts m) s1
              \<and> (\<forall>pre domain post records s2 found.
                    domainsOf (lastKnownHosts m) = pre @ domain # post
                    \<and> getDNSRecords w zones (trim domain)
                          (foldl (\<lambda>s' d. deleteDomain w zones d s') s1 pre) = (records, s2)
                    \<and> find (\<lambda>r. name_rec r = trim domain) records = Some found
                    \<longrightarrow> (\<exists>zoneId. getZoneIdForDomain zones (trim domain) = Some zoneId
                           \<and> \<lparr>sent_at = clock s2,
                               sent = \<lparr>method_req = DELETE,
                                       url_req = recordsUrl zoneId @ ''/'' @ id_rec found,
                                       body_req = NoBody\<rparr>\<rparr>
                             \<in> set (issued s1 (handleDeleted w zones (lastKnownHosts m) s1)))))"
proof -
  let ?m2 = "m1\<lparr>consecutiveFailures := consecutiveFailures m1 + 1\<rparr>"
  let ?m3 = "m1\<lparr>consecutiveFailures := consecutiveFailures m1 + 1,
                lastKnownHosts := [], isInitialized := True\<rparr>"
  let ?cb = "handleNPMChanges cfg w"
  note fr = fetch_attempts_frame [OF assms(1)]
  have g: "getProxyHosts depth env m = Some (Inr [], ?m2)"
    using assms by (simp add: Let_def)
  let ?del = "if isInitialized m then lastKnownHosts m else []"
  have d: "detectChanges getTime [] ?m2
           = (\<lparr>currentHosts = [], changedHosts = [], deletedHosts = ?del\<rparr>, ?m3)"
    using fr by (simp add: detectChanges_def)
  have c: "getChangesSinceLastCheck depth getTime env m
           = Some (Inr \<lparr>currentHosts = [], changedHosts = [], deletedHosts = ?del\<rparr>, ?m3)"
    unfolding getChangesSinceLastCheck_def g using d by simp
  have cf: "\<not> consecutiveFailures ?m3 \<ge> maxConsecutiveFailures"
    using assms(2) by simp
  have mon: "monitor depth getTime env ?cb (m, s)
           = Some (?m3, if isInitialized m \<and> lastKnownHosts m \<noteq> []
                        then snd (?cb [] [] (lastKnownHosts m) s) else s)"
    using cf c
    by (cases "?cb [] [] (lastKnownHosts m) s")
       (auto simp: monitor_def Let_def split: sum.splits)
  have del: "apiToken cfg \<noteq> [] \<and> initZones w s = (zones, s1) \<longrightarrow>
              snd (?cb [] [] (lastKnownHosts m) s) = handleDeleted w zones (lastKnownHosts m) s1
              \<and> (\<forall>pre domain post records s2 found.
                    domainsOf (lastKnownHosts m) = pre @ domain # post
                    \<and> getDNSRecords w zones (trim domain)
                          (foldl (\<lambda>s' d. deleteDomain w zones d s') s1 pre) = (records, s2)
                    \<and> find (\<lambda>r. name_rec r = trim domain) records = Some found
                    \<longrightarrow> (\<exists>zoneId. getZoneIdForDomain zones (trim domain) = Some zoneId
                           \<and> \<lparr>sent_at = clock s2,
                               sent = \<lparr>method_req = DELETE,
                                       url_req = recordsUrl zoneId @ ''/'' @ id_rec found,
                                       body_req = NoBody\<rparr>\<rparr>
                             \<in> set (issued s1 (handleDeleted w zones (lastKnownHosts m) s1))))"
  proof (intro impI conjI allI)
    assume a: "apiToken cfg \<noteq> [] \<and> initZones w s = (zones, s1)"
    then show "snd (?cb [] [] (lastKnownHosts m) s) = handleDeleted w zones (lastKnownHosts m) s1"
      by (simp add: handleNPMChanges_def)
  next
    fix pre domain post records s2 found
    assume "domainsOf (lastKnownHosts m) = pre @ domain # post
            \<and> getDNSRecords w zones (trim domain)
                  (foldl (\<lambda>s' d. deleteDomain w zones d s') s1 pre) = (records, s2)
            \<and> find (\<lambda>r. name_rec r = trim domain) records = Some found"
    then have "\<exists>zoneId. getZoneIdForDomain zones (trim domain) = Some zoneId
           \<and> \<lparr>sent_at = clock s2,
               sent = \<lparr>method_req = DELETE, url_req = recordsUrl zoneId @ ''/'' @ id_rec found,
                       body_req = NoBody\<rparr>\<rparr>
             \<in> set (issued s1 (foldl (\<lambda>s' d. deleteDomain w zones d s') s1
                                  (domainsOf (lastKnownHosts m))))"
      by (intro deleteDomains_send) auto
    then show "\<exists>zoneId. getZoneIdForDomain zones (trim domain) = Some zoneId
           \<and> \<lparr>sent_at = clock s2,
               sent = \<lparr>method_req = DELETE, url_req = recordsUrl zoneId @ ''/'' @ id_rec found,
                       body_req = NoBody\<rparr>\<rparr>
             \<in> set (issued s1 (handleDeleted w zones (lastKnownHosts m) s1))"
      by (simp add: handleDeleted_domains)
  qed
  from g c mon del show ?thesis by blast
qed

theorem exhausted_fetch_reports_all_deleted_witness:
  "fetch_attempts npmDown maxRetries monitorOld = (Exhausted, monitorOld\<lparr>exchanges := 10\<rparr>)
   \<and> consecutiveFailures (monitorOld\<lparr>exchanges := 10\<rparr>) + 1 < maxConsecutiveFailures
   \<and> apiToken manualRoots \<noteq> []
   \<and> initZones steady startState = (oneZone, afterInit)
   \<and> domainsOf (lastKnownHosts monitorOld) = [] @ ''old.example.com'' # []
   \<and> getDNSRecords steady oneZone (trim ''old.example.com'')
         (foldl (\<lambda>s' d. deleteDomain steady oneZone d s') afterInit [])
       = ([rootRecord, oldRecord, subRecord],
          stateAt 4 (initLog @ [\<lparr>sent_at = 1150, sent = readRecords\<rparr>]))
   \<and> find (\<lambda>r. name_rec r = trim ''old.example.com'') [rootRecord, oldRecord, subRecord]
       = Some oldRecord
   \<and> getProxyHosts 0 npmDown monitorOld
       = Some (Inr [], monitorOld\<lparr>exchanges := 10, consecutiveFailures := 1\<rparr>)
   \<and> monitor 0 exampleTime npmDown (handleNPMChanges manualRoots steady) (monitorOld, startState)
       = Some (monitorOld\<lparr>exchanges := 10, consecutiveFailures := 1, lastKnownHosts := []\<rparr>,
               afterDeleted)
   \<and> \<lparr>sent_at = 1200, sent = deleteOld\<rparr> \<in> set (issued afterInit afterDeleted)"
proof -
  have a: "fetch_attempts npmDown maxRetries monitorOld = (Exhausted, monitorOld\<lparr>exchanges := 10\<rparr>)"
    by (simp add: maxRetries_def eval_nat_numeral getHeaders_def falsy_def monitorOld_def
        monitorA_def npmDown_def ok_def)
  have b: "consecutiveFailures (monitorOld\<lparr>exchanges := 10\<rparr>) + 1 < maxConsecutiveFailures"
    by (simp add: monitorOld_def monitorA_def maxConsecutiveFailures_def)
  have t: "apiToken manualRoots \<noteq> []" by (simp add: manualRoots_def)
  have l: "lastKnownHosts monitorOld = [hostOld]" "isInitialized monitorOld"
    by (simp_all add: monitorOld_def monitorA_def)
  have ds: "domainsOf (lastKnownHosts monitorOld) = [] @ ''old.example.com'' # []"
    by (simp add: l domainsOf_def hostOld_def domainList_def)
  have g: "getDNSRecords steady oneZone (trim ''old.example.com'')
             (foldl (\<lambda>s' d. deleteDomain steady oneZone d s') afterInit [])
           = ([rootRecord, oldRecord, subRecord],
              stateAt 4 (initLog @ [\<lparr>sent_at = 1150, sent = readRecords\<rparr>]))"
    by (simp add: trims afterInit_def steady_listing zone_of_old_new eval_nat_numeral)
  have f: "find (\<lambda>r. name_rec r = trim ''old.example.com'') [rootRecord, oldRecord, subRecord]
           = Some oldRecord"
    by (simp add: trims rootRecord_def oldRecord_def)
  have c4: "clock (stateAt 4 (initLog @ [\<lparr>sent_at = 1150, sent = readRecords\<rparr>])) = 1200"
    by (simp add: stateAt_def)
  note inst = exhausted_fetch_reports_all_deleted [OF a b, of 0 exampleTime manualRoots steady
      startState oneZone afterInit]
  from inst have p: "getProxyHosts 0 npmDown monitorOld
       = Some (Inr [], monitorOld\<lparr>exchanges := 10, consecutiveFailures := 1\<rparr>)"
    by (simp add: monitorOld_def monitorA_def)
  from inst t steady_init have h: "snd (handleNPMChanges manualRoots steady [] [] [hostOld] startState)
       = afterDeleted"
    by (simp add: l steady_deleted)
  from inst have "monitor 0 exampleTime npmDown (handleNPMChanges manualRoots steady)
                   (monitorOld, startState)
       = Some (monitorOld\<lparr>exchanges := 10, consecutiveFailures := 1, lastKnownHosts := []\<rparr>,
               afterDeleted)"
    unfolding l h by (simp add: monitorOld_def monitorA_def)
  moreover
  from inst t steady_init ds g f
  obtain zoneId where "getZoneIdForDomain oneZone (trim ''old.example.com'') = Some zoneId"
    "\<lparr>sent_at = clock (stateAt 4 (initLog @ [\<lparr>sent_at = 1150, sent = readRecords\<rparr>])),
      sent = \<lparr>method_req = DELETE, url_req = recordsUrl zoneId @ ''/'' @ id_rec oldRecord,
              body_req = NoBody\<rparr>\<rparr>
     \<in> set (issued afterInit (handleDeleted steady oneZone (lastKnownHosts monitorOld) afterInit))"
    by blast
  then have "\<lparr>sent_at = 1200, sent = deleteOld\<rparr> \<in> set (issued afterInit afterDeleted)"
    unfolding c4 l steady_deleted
    by (simp add: trims zone_of_old_new deleteOld_def oldRecord_def)
  ultimately show ?thesis
    using a b t steady_init ds g f p by simp
qed

end
